theory Spec2Isabelle
  imports Main "HOL-Library.Word"
begin

section \<open>Data model of package txtracev2 (internal\_types.go)\<close>

text \<open>
  Addresses are 20 bytes, hashes 32 bytes, both read as one unsigned number. A Go
  \<^verbatim>\<open>error\<close> is used by the tracer only through \<^verbatim>\<open>err != nil\<close> and \<^verbatim>\<open>err.Error()\<close>:
  it is \<open>None\<close> for nil and \<open>Some m\<close> for an error whose message is \<open>m\<close>. A pointer
  field that may be nil is an \<open>option\<close>. A byte slice is the list of its bytes (the
  tracer never tells a nil slice from an empty one).
\<close>

type_synonym address = "160 word"
type_synonym hash = "256 word"
type_synonym bytes = "8 word list"
type_synonym err = "string option"

definition CallTypeCreate :: "8 word" where "CallTypeCreate = 0"
definition CallTypeCall :: "8 word" where "CallTypeCall = 1"
definition CallTypeCallCode :: "8 word" where "CallTypeCallCode = 2"
definition CallTypeDelegateCall :: "8 word" where "CallTypeDelegateCall = 3"
definition CallTypeStaticCall :: "8 word" where "CallTypeStaticCall = 4"
definition CallTypeSuicide :: "8 word" where "CallTypeSuicide = 5"

record InternalAction =
  CallType :: "8 word"
  From :: "address option"
  To :: "address option"
  Value :: "int option"
  Gas :: "64 word"
  Init :: bytes
  Input :: bytes
  Address :: "address option"
  RefundAddress :: "address option"
  Balance :: "int option"

record InternalTraceActionResult =
  GasUsed :: "64 word"
  Output :: bytes
  Code :: bytes
  ResultAddress :: "address option"

text \<open>
  The type of \<^verbatim>\<open>TraceAddress\<close> is a parameter: the tracer that copies the parent's
  address holds the list of numbers itself, the tracer that appends to the parent's
  slice holds a slice header into shared backing arrays.
\<close>

record 'ta InternalActionTrace =
  Action :: InternalAction
  Result :: "InternalTraceActionResult option"
  Error :: string
  TraceAddress :: 'ta
  Subtraces :: "32 word"

type_synonym Trace = "(32 word list) InternalActionTrace"

section \<open>The streaming tracer that copies addresses\<close>

text \<open>
  The opcodes the tracer tells apart; every other opcode is \<open>OtherOp\<close>.
\<close>

datatype OpCode =
  CREATE | CREATE2 | CALL | CALLCODE | DELEGATECALL | STATICCALL | SELFDESTRUCT | REVERT
  | RETURN | STOP | OtherOp

text \<open>
  What the tracer asks of the EVM instance handed to \<^verbatim>\<open>CaptureStart\<close>:
  \<^verbatim>\<open>env.Context.CanTransfer(env.StateDB, addr, value)\<close>, \<^verbatim>\<open>env.StateDB.GetNonce\<close> and
  \<^verbatim>\<open>env.StateDB.GetCodeHash\<close>.
\<close>

record EVM =
  CanTransfer :: "address \<Rightarrow> int \<Rightarrow> bool"
  GetNonce :: "address \<Rightarrow> 64 word"
  GetCodeHash :: "address \<Rightarrow> hash"

text \<open>
  Every \<^verbatim>\<open>*InternalActionTrace\<close> the tracer allocates is appended to
  \<^verbatim>\<open>outPutTraces.Traces\<close> in the same call, so a pointer to a node is the node's index
  in \<open>Traces\<close>: \<open>traceStack\<close> is the list of the indices of the open nodes, innermost
  last, and a write through a pointer is a list update at that index. The store and
  the block and transaction fields of \<^verbatim>\<open>outPutTraces\<close> are set once by
  \<^verbatim>\<open>NewOeTracer\<close> and never read by the callbacks; they are left out.
\<close>

record OeTracer =
  traceStack :: "nat list"
  Traces :: "Trace list"
  env :: "EVM option"

definition NewOeTracer :: OeTracer where
  "NewOeTracer = \<lparr>traceStack = [], Traces = [], env = None\<rparr>"

text \<open>
  Lines 51 to 62, which \<^verbatim>\<open>createEnter\<close>, \<^verbatim>\<open>callEnter\<close> and \<^verbatim>\<open>suicideEnter\<close> repeat word
  for word after building their action: the new node takes a copy of the innermost open
  node's address with that node's \<^verbatim>\<open>Subtraces\<close> appended, the counter is incremented,
  and the node is appended to the output list and pushed.
\<close>

definition pushTrace :: "InternalAction \<Rightarrow> OeTracer \<Rightarrow> OeTracer" where
  "pushTrace action ot =
    (let internalTrace =
           \<lparr>Action = action, Result = None, Error = [], TraceAddress = [], Subtraces = 0\<rparr>
     in if length (traceStack ot) > 0 then
          let top = last (traceStack ot);
              parent = Traces ot ! top;
              internalTrace' =
                internalTrace\<lparr>TraceAddress := TraceAddress parent @ [Subtraces parent]\<rparr>;
              traces' = (Traces ot)[top := parent\<lparr>Subtraces := Subtraces parent + 1\<rparr>]
          in ot\<lparr>Traces := traces' @ [internalTrace'],
                traceStack := traceStack ot @ [length (Traces ot)]\<rparr>
        else ot\<lparr>Traces := Traces ot @ [internalTrace],
                traceStack := traceStack ot @ [length (Traces ot)]\<rparr>)"

text \<open>
  The \<^verbatim>\<open>action := InternalAction{...}\<close> literal of each enter handler; a field the
  literal does not name has Go's zero value.
\<close>

definition createAction ::
  "address \<Rightarrow> address \<Rightarrow> bytes \<Rightarrow> 64 word \<Rightarrow> int option \<Rightarrow> InternalAction" where
  "createAction from address input gas val =
     \<lparr>CallType = CallTypeCreate, From = Some from, To = None, Value = val,
      Gas = gas, Init = input, Input = [], Address = Some address,
      RefundAddress = None, Balance = None\<rparr>"

definition callAction ::
  "8 word \<Rightarrow> address \<Rightarrow> address \<Rightarrow> bytes \<Rightarrow> 64 word \<Rightarrow> int option \<Rightarrow> InternalAction" where
  "callAction callType from to input gas val =
     \<lparr>CallType = callType, From = Some from, To = Some to, Value = val,
      Gas = gas, Init = [], Input = input, Address = None,
      RefundAddress = None, Balance = None\<rparr>"

definition suicideAction :: "address \<Rightarrow> address \<Rightarrow> int option \<Rightarrow> InternalAction" where
  "suicideAction address refundAddress balance =
     \<lparr>CallType = CallTypeSuicide, From = None, To = None, Value = None,
      Gas = 0, Init = [], Input = [], Address = Some address,
      RefundAddress = Some refundAddress, Balance = balance\<rparr>"

definition createEnter ::
  "address \<Rightarrow> address \<Rightarrow> bytes \<Rightarrow> 64 word \<Rightarrow> int option \<Rightarrow> OeTracer \<Rightarrow> OeTracer" where
  "createEnter from address input gas val ot =
     pushTrace (createAction from address input gas val) ot"

definition callEnter ::
  "8 word \<Rightarrow> address \<Rightarrow> address \<Rightarrow> bytes \<Rightarrow> 64 word \<Rightarrow> int option \<Rightarrow> OeTracer \<Rightarrow> OeTracer" where
  "callEnter callType from to input gas val ot =
     pushTrace (callAction callType from to input gas val) ot"

definition suicideEnter ::
  "address \<Rightarrow> address \<Rightarrow> bytes \<Rightarrow> 64 word \<Rightarrow> int option \<Rightarrow> OeTracer \<Rightarrow> OeTracer" where
  "suicideEnter address refundAddress input gas balance ot =
     pushTrace (suicideAction address refundAddress balance) ot"

text \<open>The three exit handlers work on the popped node alone.\<close>

definition createExit :: "Trace \<Rightarrow> bytes \<Rightarrow> 64 word \<Rightarrow> err \<Rightarrow> Trace" where
  "createExit internalTrace output gasUsed err =
    (if Error internalTrace \<noteq> [] then internalTrace\<lparr>Result := None\<rparr>
     else case err of
       Some m \<Rightarrow> internalTrace\<lparr>Error := m, Result := None\<rparr>
     | None \<Rightarrow> internalTrace\<lparr>Result :=
         Some \<lparr>GasUsed = gasUsed, Output = [], Code = output,
               ResultAddress = Address (Action internalTrace)\<rparr>\<rparr>)"

definition callExit :: "Trace \<Rightarrow> bytes \<Rightarrow> 64 word \<Rightarrow> err \<Rightarrow> Trace" where
  "callExit internalTrace output gasUsed err =
    (if Error internalTrace \<noteq> [] then internalTrace\<lparr>Result := None\<rparr>
     else case err of
       Some m \<Rightarrow> internalTrace\<lparr>Error := m, Result := None\<rparr>
     | None \<Rightarrow> internalTrace\<lparr>Result :=
         Some \<lparr>GasUsed = gasUsed, Output = output, Code = [], ResultAddress = None\<rparr>\<rparr>)"

definition suicideExit :: "Trace \<Rightarrow> bytes \<Rightarrow> 64 word \<Rightarrow> err \<Rightarrow> Trace" where
  "suicideExit internalTrace output gasUsed err =
    (if Error internalTrace \<noteq> [] then internalTrace\<lparr>Result := None\<rparr>
     else case err of
       Some m \<Rightarrow> internalTrace\<lparr>Error := m, Result := None\<rparr>
     | None \<Rightarrow> internalTrace)"

definition CaptureStart ::
  "EVM \<Rightarrow> address \<Rightarrow> address \<Rightarrow> bool \<Rightarrow> bytes \<Rightarrow> 64 word \<Rightarrow> int option \<Rightarrow> OeTracer \<Rightarrow> OeTracer" where
  "CaptureStart e from to create input gas val ot =
    (if create then createEnter from to input gas val ot
     else callEnter CallTypeCall from to input gas val ot)\<lparr>env := Some e\<rparr>"

text \<open>
  \<^verbatim>\<open>ot.traceStack[len(ot.traceStack)-1]\<close> on an empty stack is an index out of range:
  the panic is the result \<open>None\<close>.
\<close>

definition CaptureEnd :: "bytes \<Rightarrow> 64 word \<Rightarrow> err \<Rightarrow> OeTracer \<Rightarrow> OeTracer option" where
  "CaptureEnd output gasUsed err ot =
    (if traceStack ot = [] then None
     else let top = last (traceStack ot);
              internalTrace = Traces ot ! top;
              ot' = ot\<lparr>traceStack := butlast (traceStack ot)\<rparr>
          in Some (if CallType (Action internalTrace) = CallTypeCreate
                   then ot'\<lparr>Traces := (Traces ot)[top := createExit internalTrace output gasUsed err]\<rparr>
                   else ot'\<lparr>Traces := (Traces ot)[top := callExit internalTrace output gasUsed err]\<rparr>))"

definition CaptureEnter ::
  "OpCode \<Rightarrow> address \<Rightarrow> address \<Rightarrow> bytes \<Rightarrow> 64 word \<Rightarrow> int option \<Rightarrow> OeTracer \<Rightarrow> OeTracer" where
  "CaptureEnter typ from to input gas val ot =
    (if typ = CREATE \<or> typ = CREATE2 then createEnter from to input gas val ot
     else if typ = CALL then callEnter CallTypeCall from to input gas val ot
     else if typ = CALLCODE then callEnter CallTypeCallCode from to input gas val ot
     else if typ = DELEGATECALL then callEnter CallTypeDelegateCall from to input gas val ot
     else if typ = STATICCALL then callEnter CallTypeStaticCall from to input gas val ot
     else if typ = SELFDESTRUCT then suicideEnter from to input gas val ot
     else ot)"

definition CaptureExit :: "bytes \<Rightarrow> 64 word \<Rightarrow> err \<Rightarrow> OeTracer \<Rightarrow> OeTracer option" where
  "CaptureExit output gasUsed err ot =
    (if traceStack ot = [] then None
     else let top = last (traceStack ot);
              internalTrace = Traces ot ! top;
              ot' = ot\<lparr>traceStack := butlast (traceStack ot)\<rparr>;
              ct = CallType (Action internalTrace)
          in Some (if ct = CallTypeCreate
                   then ot'\<lparr>Traces := (Traces ot)[top := createExit internalTrace output gasUsed err]\<rparr>
                   else if ct = CallTypeCall \<or> ct = CallTypeCallCode \<or>
                           ct = CallTypeDelegateCall \<or> ct = CallTypeStaticCall
                   then ot'\<lparr>Traces := (Traces ot)[top := callExit internalTrace output gasUsed err]\<rparr>
                   else if ct = CallTypeSuicide
                   then ot'\<lparr>Traces := (Traces ot)[top := suicideExit internalTrace output gasUsed err]\<rparr>
                   else ot'))"


subsection \<open>Pre-checks and the synthesized enter and exit\<close>

text \<open>
  What \<^verbatim>\<open>CaptureState\<close> reads of the \<^verbatim>\<open>vm.ScopeContext\<close>: \<^verbatim>\<open>scope.Stack.Back(n)\<close>,
  \<^verbatim>\<open>scope.Memory.GetCopy(offset, size)\<close> and \<^verbatim>\<open>scope.Contract.Address()\<close>.
\<close>

record ScopeContext =
  Back :: "nat \<Rightarrow> 256 word"
  GetCopy :: "int \<Rightarrow> int \<Rightarrow> bytes"
  ContractAddress :: address

text \<open>
  The constants of go-ethereum the tracer names: \<^verbatim>\<open>params.CallCreateDepth\<close>, the
  messages of \<^verbatim>\<open>vm.ErrDepth\<close>, \<^verbatim>\<open>vm.ErrInsufficientBalance\<close>,
  \<^verbatim>\<open>vm.ErrNonceUintOverflow\<close> and \<^verbatim>\<open>vm.ErrContractAddressCollision\<close>, and
  \<^verbatim>\<open>crypto.Keccak256Hash(nil)\<close>. They are not part of this repository and are taken as
  a parameter.
\<close>

record VMConsts =
  CallCreateDepth :: int
  ErrDepth :: string
  ErrInsufficientBalance :: string
  ErrNonceUintOverflow :: string
  ErrContractAddressCollision :: string
  emptyCodeHash :: hash

definition int64_of_Uint64 :: "256 word \<Rightarrow> int" where
  "int64_of_Uint64 w = sint (ucast w :: 64 word)"

definition createPreProcessFailed ::
  "OpCode \<Rightarrow> ScopeContext \<Rightarrow> 64 word \<Rightarrow> int option \<Rightarrow> err \<Rightarrow> OeTracer \<Rightarrow> OeTracer option" where
  "createPreProcessFailed op scope gas val err ot =
    (let offset = Back scope 1; size = Back scope 2;
         input = GetCopy scope (int64_of_Uint64 offset) (int64_of_Uint64 size)
     in CaptureExit [] 0 err (CaptureEnter op (ContractAddress scope) 0 input gas val ot))"

definition callPreProcessFailed ::
  "OpCode \<Rightarrow> ScopeContext \<Rightarrow> 64 word \<Rightarrow> int option \<Rightarrow> err \<Rightarrow> OeTracer \<Rightarrow> OeTracer option" where
  "callPreProcessFailed op scope gas val err ot =
    (let addr = Back scope 1;
         input = (if op = CALL \<or> op = CALLCODE
                  then GetCopy scope (int64_of_Uint64 (Back scope 3)) (int64_of_Uint64 (Back scope 4))
                  else GetCopy scope (int64_of_Uint64 (Back scope 2)) (int64_of_Uint64 (Back scope 3)))
     in CaptureExit [] 0 err
          (CaptureEnter op (ContractAddress scope) (ucast addr) input gas val ot))"

definition checkDepthAboveLitmit :: "VMConsts \<Rightarrow> int \<Rightarrow> err" where
  "checkDepthAboveLitmit K depth =
    (if depth > CallCreateDepth K then Some (ErrDepth K) else None)"

text \<open>
  The three checks below read \<^verbatim>\<open>ot.env\<close>, which is nil until \<^verbatim>\<open>CaptureStart\<close>: the
  outer \<open>None\<close> is the nil dereference. \<^verbatim>\<open>checkCanTransfer\<close> reads it only when the
  value is not zero (the \<^verbatim>\<open>&&\<close> short-circuits).
\<close>

definition checkCanTransfer :: "VMConsts \<Rightarrow> OeTracer \<Rightarrow> address \<Rightarrow> int \<Rightarrow> err option" where
  "checkCanTransfer K ot addr val =
    (if val \<noteq> 0 then
       (case env ot of
          None \<Rightarrow> None
        | Some e \<Rightarrow> if \<not> CanTransfer e addr val then Some (Some (ErrInsufficientBalance K))
                    else Some None)
     else Some None)"

definition checkNonceMatch :: "VMConsts \<Rightarrow> OeTracer \<Rightarrow> address \<Rightarrow> err option" where
  "checkNonceMatch K ot addr =
    (case env ot of
       None \<Rightarrow> None
     | Some e \<Rightarrow> let nonce = GetNonce e addr
                 in if nonce + 1 < nonce then Some (Some (ErrNonceUintOverflow K)) else Some None)"

definition checkContractNotExist :: "VMConsts \<Rightarrow> OeTracer \<Rightarrow> address \<Rightarrow> err option" where
  "checkContractNotExist K ot addr =
    (case env ot of
       None \<Rightarrow> None
     | Some e \<Rightarrow> let contractHash = GetCodeHash e addr
                 in if GetNonce e addr \<noteq> 0 \<or> (contractHash \<noteq> 0 \<and> contractHash \<noteq> emptyCodeHash K)
                    then Some (Some (ErrContractAddressCollision K)) else Some None)"

text \<open>
  \<^verbatim>\<open>CaptureState\<close>, one definition for the body of each \<^verbatim>\<open>case\<close> of its switch, the
  checks in the order of the source. In the case of \<^verbatim>\<open>CALL\<close> and \<^verbatim>\<open>CALLCODE\<close> the source
  assigns the result of the depth check to \<^verbatim>\<open>err\<close> before it tests \<^verbatim>\<open>err\<close>: \<open>err'\<close>
  below is the variable after that assignment, and the test that follows reads it.
\<close>

definition stateCreate ::
  "VMConsts \<Rightarrow> OpCode \<Rightarrow> 64 word \<Rightarrow> ScopeContext \<Rightarrow> int \<Rightarrow> err \<Rightarrow> OeTracer \<Rightarrow> OeTracer option" where
  "stateCreate K op gas scope depth err ot =
    (let bigVal = uint (Back scope 0) in
     if err \<noteq> None then createPreProcessFailed op scope gas (Some bigVal) err ot
     else if checkDepthAboveLitmit K depth \<noteq> None
     then createPreProcessFailed op scope gas (Some bigVal) (checkDepthAboveLitmit K depth) ot
     else (case checkCanTransfer K ot (ContractAddress scope) bigVal of
        None \<Rightarrow> None
      | Some (Some m) \<Rightarrow> createPreProcessFailed op scope gas (Some bigVal) (Some m) ot
      | Some None \<Rightarrow>
      (case checkNonceMatch K ot (ContractAddress scope) of
        None \<Rightarrow> None
      | Some (Some m) \<Rightarrow> createPreProcessFailed op scope gas (Some bigVal) (Some m) ot
      | Some None \<Rightarrow>
      (case checkContractNotExist K ot (ContractAddress scope) of
        None \<Rightarrow> None
      | Some (Some m) \<Rightarrow> createPreProcessFailed op scope gas (Some bigVal) (Some m) ot
      | Some None \<Rightarrow> Some ot))))"

definition stateCall ::
  "VMConsts \<Rightarrow> OpCode \<Rightarrow> 64 word \<Rightarrow> ScopeContext \<Rightarrow> int \<Rightarrow> err \<Rightarrow> OeTracer \<Rightarrow> OeTracer option" where
  "stateCall K op gas scope depth err ot =
    (let bigVal = uint (Back scope 2);
         err' = checkDepthAboveLitmit K depth
     in if err' \<noteq> None then callPreProcessFailed op scope gas (Some bigVal) err' ot
        else if err' \<noteq> None then callPreProcessFailed op scope gas (Some bigVal) err' ot
        else (case checkCanTransfer K ot (ContractAddress scope) bigVal of
           None \<Rightarrow> None
         | Some (Some m) \<Rightarrow> callPreProcessFailed op scope gas (Some bigVal) (Some m) ot
         | Some None \<Rightarrow> Some ot))"

definition stateDelegate ::
  "VMConsts \<Rightarrow> OpCode \<Rightarrow> 64 word \<Rightarrow> ScopeContext \<Rightarrow> int \<Rightarrow> err \<Rightarrow> OeTracer \<Rightarrow> OeTracer option" where
  "stateDelegate K op gas scope depth err ot =
    (if err \<noteq> None then callPreProcessFailed op scope gas None err ot
     else if checkDepthAboveLitmit K depth \<noteq> None
     then callPreProcessFailed op scope gas None (checkDepthAboveLitmit K depth) ot
     else Some ot)"

definition stateRevert :: "OeTracer \<Rightarrow> OeTracer option" where
  "stateRevert ot =
    (if traceStack ot = [] then None
     else let top = last (traceStack ot)
          in Some (ot\<lparr>Traces := (Traces ot)[top := (Traces ot ! top)\<lparr>Error := ''execution reverted''\<rparr>]\<rparr>))"

definition CaptureState ::
  "VMConsts \<Rightarrow> OpCode \<Rightarrow> 64 word \<Rightarrow> ScopeContext \<Rightarrow> int \<Rightarrow> err \<Rightarrow> OeTracer \<Rightarrow> OeTracer option" where
  "CaptureState K op gas scope depth err ot =
    (if op = CREATE \<or> op = CREATE2 then stateCreate K op gas scope depth err ot
     else if op = CALL \<or> op = CALLCODE then stateCall K op gas scope depth err ot
     else if op = DELEGATECALL \<or> op = STATICCALL then stateDelegate K op gas scope depth err ot
     else if op = REVERT then stateRevert ot
     else Some ot)"

subsection \<open>The callbacks as events\<close>

datatype Event =
    EvStart EVM address address bool bytes "64 word" "int option"
  | EvEnd bytes "64 word" err
  | EvEnter OpCode address address bytes "64 word" "int option"
  | EvExit bytes "64 word" err
  | EvState OpCode "64 word" ScopeContext int err
  | EvFault

fun step :: "VMConsts \<Rightarrow> Event \<Rightarrow> OeTracer \<Rightarrow> OeTracer option" where
  "step K (EvStart e from to create input gas val) ot =
     Some (CaptureStart e from to create input gas val ot)"
| "step K (EvEnd output gasUsed err) ot = CaptureEnd output gasUsed err ot"
| "step K (EvEnter typ from to input gas val) ot =
     Some (CaptureEnter typ from to input gas val ot)"
| "step K (EvExit output gasUsed err) ot = CaptureExit output gasUsed err ot"
| "step K (EvState op gas scope depth err) ot = CaptureState K op gas scope depth err ot"
| "step K EvFault ot = Some ot"

fun run :: "VMConsts \<Rightarrow> Event list \<Rightarrow> OeTracer \<Rightarrow> OeTracer option" where
  "run K [] ot = Some ot"
| "run K (e # es) ot = (case step K e ot of None \<Rightarrow> None | Some ot' \<Rightarrow> run K es ot')"

subsection \<open>Invariants of the tracer state\<close>

text \<open>
  The auxiliary notions of the proofs. The trace stack holds distinct indices of nodes
  of the output list.
\<close>

definition wf_stack :: "OeTracer \<Rightarrow> bool" where
  "wf_stack ot = (distinct (traceStack ot) \<and> (\<forall>p \<in> set (traceStack ot). p < length (Traces ot)))"

text \<open>
  The opcodes \<^verbatim>\<open>CaptureEnter\<close> has a case for, and the call types of the nodes they make:
  \<open>callish\<close> are the create and the four calls, \<open>known_kind\<close> adds the self-destruct.
\<close>

definition call_like :: "OpCode \<Rightarrow> bool" where
  "call_like ty = (ty = CREATE \<or> ty = CREATE2 \<or> ty = CALL \<or> ty = CALLCODE \<or>
     ty = DELEGATECALL \<or> ty = STATICCALL \<or> ty = SELFDESTRUCT)"

definition callish :: "8 word \<Rightarrow> bool" where
  "callish ct = (ct = CallTypeCreate \<or> ct = CallTypeCall \<or> ct = CallTypeCallCode \<or>
     ct = CallTypeDelegateCall \<or> ct = CallTypeStaticCall)"

definition known_kind :: "8 word \<Rightarrow> bool" where
  "known_kind ct = (callish ct \<or> ct = CallTypeSuicide)"

text \<open>
  \<open>closed_as t err t'\<close>: what an exit handler called with the error \<open>err\<close> may make of
  the node \<open>t\<close>. It covers \<^verbatim>\<open>createExit\<close>, \<^verbatim>\<open>callExit\<close> and \<^verbatim>\<open>suicideExit\<close>, and the
  switch of \<^verbatim>\<open>CaptureExit\<close> that leaves a node of no known type alone.
\<close>

definition closed_as :: "Trace \<Rightarrow> err \<Rightarrow> Trace \<Rightarrow> bool" where
  "closed_as t err t' =
    ((\<not> known_kind (CallType (Action t)) \<and> t' = t) \<or>
     (Action t' = Action t \<and> TraceAddress t' = TraceAddress t \<and> Subtraces t' = Subtraces t \<and>
      (if Error t \<noteq> [] then Error t' = Error t \<and> Result t' = None
       else case err of
              Some m \<Rightarrow> Error t' = m \<and> Result t' = None
            | None \<Rightarrow> Error t' = [] \<and> (callish (CallType (Action t)) \<longrightarrow> Result t' \<noteq> None))))"

text \<open>
  Every callback is a sequence of four kinds of transitions: a node is pushed, the
  EVM is recorded, the innermost node is popped and closed, the innermost node is
  marked as reverted. With \<open>S\<close> set, a pop carries no error with an empty message.
\<close>

inductive prim :: "bool \<Rightarrow> OeTracer \<Rightarrow> OeTracer \<Rightarrow> bool" for S :: bool where
  prim_push: "known_kind (CallType a) \<Longrightarrow> prim S ot (pushTrace a ot)"
| prim_env: "prim S ot (ot\<lparr>env := e\<rparr>)"
| prim_pop: "traceStack ot \<noteq> [] \<Longrightarrow> closed_as (Traces ot ! last (traceStack ot)) err n' \<Longrightarrow>
     (S \<longrightarrow> err \<noteq> Some []) \<Longrightarrow>
     prim S ot (ot\<lparr>traceStack := butlast (traceStack ot),
                   Traces := (Traces ot)[last (traceStack ot) := n']\<rparr>)"
| prim_revert: "stateRevert ot = Some ot' \<Longrightarrow> prim S ot ot'"

text \<open>The errors an event can hand to an exit handler all have a message.\<close>

fun strict_ev :: "VMConsts \<Rightarrow> Event \<Rightarrow> bool" where
  "strict_ev K (EvEnd out g err) = (err \<noteq> Some [])"
| "strict_ev K (EvExit out g err) = (err \<noteq> Some [])"
| "strict_ev K (EvState op g sc d err) =
     (err \<noteq> Some [] \<and> ErrDepth K \<noteq> [] \<and> ErrInsufficientBalance K \<noteq> [] \<and>
      ErrNonceUintOverflow K \<noteq> [] \<and> ErrContractAddressCollision K \<noteq> [])"
| "strict_ev K _ = True"

text \<open>
  Every node has one of the six call types; \<open>inv\<close> holds in every state the tracer
  reaches.
\<close>

definition kinds_ok :: "OeTracer \<Rightarrow> bool" where
  "kinds_ok ot = (\<forall>i < length (Traces ot). known_kind (CallType (Action (Traces ot ! i))))"

definition inv :: "OeTracer \<Rightarrow> bool" where
  "inv ot = (wf_stack ot \<and> kinds_ok ot)"

text \<open>
  \<open>frame ot ot'\<close>: what a later state keeps of an earlier one. No node disappears, no
  action and no address changes, and a closed node stays closed and unchanged.
\<close>

definition frame :: "OeTracer \<Rightarrow> OeTracer \<Rightarrow> bool" where
  "frame ot ot' =
    (length (Traces ot) \<le> length (Traces ot') \<and>
     (\<forall>i < length (Traces ot).
        Action (Traces ot' ! i) = Action (Traces ot ! i) \<and>
        TraceAddress (Traces ot' ! i) = TraceAddress (Traces ot ! i) \<and>
        (i \<notin> set (traceStack ot) \<longrightarrow>
           i \<notin> set (traceStack ot') \<and> Traces ot' ! i = Traces ot ! i)))"

text \<open>
  The properties carried through the transitions: a closed node never has both a
  result and an error, and has one of them unless it is a self-destruct; a node marked
  as reverted keeps the mark and has no result once closed; an open node has no result.
\<close>

definition set_ok :: "Trace \<Rightarrow> bool" where
  "set_ok n = (\<not> (Result n \<noteq> None \<and> Error n \<noteq> []) \<and>
               (callish (CallType (Action n)) \<longrightarrow> (Result n \<noteq> None \<or> Error n \<noteq> [])))"

definition closed_ok :: "OeTracer \<Rightarrow> bool" where
  "closed_ok ot = (\<forall>i < length (Traces ot). i \<notin> set (traceStack ot) \<longrightarrow> set_ok (Traces ot ! i))"

definition reverted_at :: "nat \<Rightarrow> OeTracer \<Rightarrow> bool" where
  "reverted_at X ot = (Error (Traces ot ! X) = ''execution reverted'' \<and>
     (X \<notin> set (traceStack ot) \<longrightarrow> Result (Traces ot ! X) = None))"

definition open_none :: "OeTracer \<Rightarrow> bool" where
  "open_none ot = (\<forall>i \<in> set (traceStack ot). Result (Traces ot ! i) = None)"

subsection \<open>Event sequences\<close>

text \<open>
  What a start or enter event allocates: the action of the node it appends, or nothing
  for an opcode \<^verbatim>\<open>CaptureEnter\<close> has no case for.
\<close>

fun enterAction :: "Event \<Rightarrow> InternalAction list" where
  "enterAction (EvStart e from to create input gas val) =
     [if create then createAction from to input gas val
      else callAction CallTypeCall from to input gas val]"
| "enterAction (EvEnter ty from to input gas val) =
     (if ty = CREATE \<or> ty = CREATE2 then [createAction from to input gas val]
      else if ty = CALL then [callAction CallTypeCall from to input gas val]
      else if ty = CALLCODE then [callAction CallTypeCallCode from to input gas val]
      else if ty = DELEGATECALL then [callAction CallTypeDelegateCall from to input gas val]
      else if ty = STATICCALL then [callAction CallTypeStaticCall from to input gas val]
      else if ty = SELFDESTRUCT then [suicideAction from to val]
      else [])"
| "enterAction _ = []"

definition discovered :: "Event list \<Rightarrow> InternalAction list" where
  "discovered evs = concat (map enterAction evs)"

fun is_open :: "Event \<Rightarrow> bool" where
  "is_open (EvStart e from to create input gas val) = True"
| "is_open (EvEnter ty from to input gas val) = True"
| "is_open _ = False"

fun is_close :: "Event \<Rightarrow> bool" where
  "is_close (EvEnd out g err) = True"
| "is_close (EvExit out g err) = True"
| "is_close _ = False"

definition opens :: "Event list \<Rightarrow> nat" where
  "opens evs = length (filter is_open evs)"

definition closes :: "Event list \<Rightarrow> nat" where
  "closes evs = length (filter is_close evs)"

text \<open>
  Valid nesting, read from depth \<open>d\<close>: the start event comes first, an enter event (of a
  call-like opcode) needs an open node, an exit closes a nested node, the end event
  closes the root and is last.
\<close>

fun nested :: "nat \<Rightarrow> Event list \<Rightarrow> bool" where
  "nested d [] = (d = 0)"
| "nested d (EvStart e from to create input gas val # es) = (d = 0 \<and> nested 1 es)"
| "nested d (EvEnter ty from to input gas val # es) = (0 < d \<and> call_like ty \<and> nested (Suc d) es)"
| "nested d (EvExit out g err # es) = (1 < d \<and> nested (d - 1) es)"
| "nested d (EvEnd out g err # es) = (d = 1 \<and> es = [])"
| "nested d (EvState op g sc depth err # es) = False"
| "nested d (EvFault # es) = False"

fun plain :: "Event \<Rightarrow> bool" where
  "plain (EvEnter ty from to input gas val) = call_like ty"
| "plain (EvState op g sc depth err) = False"
| "plain EvFault = False"
| "plain _ = True"

subsection \<open>Concrete inputs\<close>

text \<open>
  An instance of the constants, with the values go-ethereum gives them, an EVM that
  lets every transfer pass and knows no account, and a scope with an all-zero stack.
  They serve the concrete runs.
\<close>

definition gethConsts :: VMConsts where
  "gethConsts =
     \<lparr>CallCreateDepth = 1024,
      ErrDepth = ''max call depth exceeded'',
      ErrInsufficientBalance = ''insufficient balance for transfer'',
      ErrNonceUintOverflow = ''nonce uint64 overflow'',
      ErrContractAddressCollision = ''contract address collision'',
      emptyCodeHash = 0xc5d2460186f7233c927e7db2dcc703c0e500b653ca82273b7bfad8045d85a470\<rparr>"

definition evm0 :: EVM where
  "evm0 = \<lparr>CanTransfer = (\<lambda>a v. True), GetNonce = (\<lambda>a. 0), GetCodeHash = (\<lambda>a. 0)\<rparr>"

definition scope0 :: ScopeContext where
  "scope0 = \<lparr>Back = (\<lambda>n. 0), GetCopy = (\<lambda>off sz. []), ContractAddress = 2\<rparr>"

text \<open>
  A root call from account 1 to contract 2, which creates contract 3, which destroys
  itself at once in favour of account 1; every exit without an error.
\<close>

definition callCreateSuicide :: "Event list" where
  "callCreateSuicide =
     [EvStart evm0 1 2 False [] 100000 (Some 0),
      EvEnter CREATE 2 3 [0x60] 50000 (Some 0),
      EvEnter SELFDESTRUCT 3 1 [] 0 (Some 7),
      EvExit [] 0 None,
      EvExit [0x60] 1000 None,
      EvEnd [] 30000 None]"


subsection \<open>Predicates of the claims\<close>

text \<open>Exactly one of \<^verbatim>\<open>Result\<close> and \<^verbatim>\<open>Error\<close> is set.\<close>

definition exactly_one :: "Trace \<Rightarrow> bool" where
  "exactly_one n = ((Result n \<noteq> None) \<noteq> (Error n \<noteq> []))"

text \<open>The tracer after the start of a call from account 1 to contract 2.\<close>

definition started :: OeTracer where
  "started = CaptureStart evm0 1 2 False [] 100000 (Some 0) NewOeTracer"

text \<open>A root call whose only sub-call has returned with an output.\<close>

definition revertPre :: "Event list" where
  "revertPre =
     [EvStart evm0 1 2 False [] 100000 (Some 0),
      EvEnter CALL 2 3 [] 5000 (Some 0),
      EvExit [0xAA] 700 None]"

text \<open>
  \<open>synthesized ot m ot'\<close>: from \<open>ot\<close> to \<open>ot'\<close> exactly one node was appended, with the
  address the innermost open node gives it, the error \<open>m\<close> and no result; it is not on
  the trace stack, which is as before; the innermost open node counts one child more and
  every other node is unchanged.
\<close>

definition synthesized :: "OeTracer \<Rightarrow> string \<Rightarrow> OeTracer \<Rightarrow> bool" where
  "synthesized ot m ot' =
    (traceStack ot' = traceStack ot \<and> env ot' = env ot \<and>
     length (Traces ot') = Suc (length (Traces ot)) \<and>
     Error (Traces ot' ! length (Traces ot)) = m \<and>
     Result (Traces ot' ! length (Traces ot)) = None \<and>
     Subtraces (Traces ot' ! length (Traces ot)) = 0 \<and>
     TraceAddress (Traces ot' ! length (Traces ot)) =
       (if traceStack ot = [] then []
        else TraceAddress (Traces ot ! last (traceStack ot)) @
             [Subtraces (Traces ot ! last (traceStack ot))]) \<and>
     (\<forall>i < length (Traces ot).
        Traces ot' ! i =
          (if traceStack ot \<noteq> [] \<and> i = last (traceStack ot)
           then (Traces ot ! i)\<lparr>Subtraces := Subtraces (Traces ot ! i) + 1\<rparr>
           else Traces ot ! i)))"

section \<open>The streaming tracer that appends to the parent's address slice\<close>

text \<open>
  The second \<^verbatim>\<open>OeTracer\<close> of the sources (the one with the field \<^verbatim>\<open>traces\<close>) does not
  copy the parent's address: it assigns the parent's slice to the new node and appends
  to it. A Go slice is a header (backing array, length, capacity), and \<^verbatim>\<open>append\<close>
  writes into the backing array when the length is below the capacity and allocates a
  new array only otherwise, so two headers can share one array. The backing arrays are
  kept in a store, addressed by their index; every slice of the tracer starts at the
  beginning of its array.
\<close>

record slice =
  sl_array :: nat
  sl_len :: nat
  sl_cap :: nat

definition nil_slice :: slice where
  "nil_slice = \<lparr>sl_array = 0, sl_len = 0, sl_cap = 0\<rparr>"

definition elems :: "32 word list list \<Rightarrow> slice \<Rightarrow> 32 word list" where
  "elems arrays s = (if sl_len s = 0 then [] else take (sl_len s) (arrays ! sl_array s))"

text \<open>
  \<^verbatim>\<open>append(s, v)\<close>. The capacity of a new array is the choice of the Go runtime:
  \<open>growcap c n\<close> is the capacity it grants when a slice of capacity \<open>c\<close> must grow to
  hold \<open>n\<close> elements (at least \<open>n\<close>). It is a parameter.
\<close>

definition append_u32 ::
  "(nat \<Rightarrow> nat \<Rightarrow> nat) \<Rightarrow> 32 word list list \<Rightarrow> slice \<Rightarrow> 32 word \<Rightarrow> 32 word list list \<times> slice" where
  "append_u32 growcap arrays s v =
    (if sl_len s < sl_cap s then
       (arrays[sl_array s := (arrays ! sl_array s)[sl_len s := v]],
        s\<lparr>sl_len := sl_len s + 1\<rparr>)
     else
       let c = max (sl_len s + 1) (growcap (sl_cap s) (sl_len s + 1));
           fresh = elems arrays s @ [v] @ replicate (c - (sl_len s + 1)) 0
       in (arrays @ [fresh], \<lparr>sl_array = length arrays, sl_len = sl_len s + 1, sl_cap = c\<rparr>))"

type_synonym SlicedTrace = "slice InternalActionTrace"

text \<open>
  As before a pointer to a node is the node's index in the list that receives every
  node when it is allocated, here \<^verbatim>\<open>ot.traces\<close>. \<^verbatim>\<open>outPutTraces.Traces\<close> receives copies
  of the node structs at \<^verbatim>\<open>CaptureEnd\<close>; a copied struct holds the same slice header.
\<close>

record OeTracer' =
  traces :: "SlicedTrace list"
  traceStack' :: "nat list"
  arrays :: "32 word list list"
  outPutTraces :: "SlicedTrace list"

definition NewOeTracer' :: OeTracer' where
  "NewOeTracer' = \<lparr>traces = [], traceStack' = [], arrays = [], outPutTraces = []\<rparr>"

text \<open>The address of a node as a reader of the output sees it.\<close>

definition addressOf :: "OeTracer' \<Rightarrow> SlicedTrace \<Rightarrow> 32 word list" where
  "addressOf ot n = elems (arrays ot) (TraceAddress n)"

text \<open>The lines the three enter handlers share, after the action literal.\<close>

definition pushTrace' :: "(nat \<Rightarrow> nat \<Rightarrow> nat) \<Rightarrow> InternalAction \<Rightarrow> OeTracer' \<Rightarrow> OeTracer'" where
  "pushTrace' growcap action ot =
    (let internalTrace =
           \<lparr>Action = action, Result = None, Error = [], TraceAddress = nil_slice, Subtraces = 0\<rparr>
     in if length (traceStack' ot) > 0 then
          let top = last (traceStack' ot);
              parent = traces ot ! top;
              (arrays', s) = append_u32 growcap (arrays ot) (TraceAddress parent) (Subtraces parent);
              internalTrace' = internalTrace\<lparr>TraceAddress := s\<rparr>;
              traces' = (traces ot)[top := parent\<lparr>Subtraces := Subtraces parent + 1\<rparr>]
          in ot\<lparr>traces := traces' @ [internalTrace'], arrays := arrays',
                traceStack' := traceStack' ot @ [length (traces ot)]\<rparr>
        else ot\<lparr>traces := traces ot @ [internalTrace],
                traceStack' := traceStack' ot @ [length (traces ot)]\<rparr>)"

definition createEnter' ::
  "(nat \<Rightarrow> nat \<Rightarrow> nat) \<Rightarrow> address \<Rightarrow> address \<Rightarrow> bytes \<Rightarrow> 64 word \<Rightarrow> int option \<Rightarrow>
   OeTracer' \<Rightarrow> OeTracer'" where
  "createEnter' growcap from address input gas val ot =
     pushTrace' growcap (createAction from address input gas val) ot"

definition callEnter' ::
  "(nat \<Rightarrow> nat \<Rightarrow> nat) \<Rightarrow> 8 word \<Rightarrow> address \<Rightarrow> address \<Rightarrow> bytes \<Rightarrow> 64 word \<Rightarrow> int option \<Rightarrow>
   OeTracer' \<Rightarrow> OeTracer'" where
  "callEnter' growcap callType from to input gas val ot =
     pushTrace' growcap (callAction callType from to input gas val) ot"

definition suicideEnter' ::
  "(nat \<Rightarrow> nat \<Rightarrow> nat) \<Rightarrow> address \<Rightarrow> address \<Rightarrow> bytes \<Rightarrow> 64 word \<Rightarrow> int option \<Rightarrow>
   OeTracer' \<Rightarrow> OeTracer'" where
  "suicideEnter' growcap address refundAddress input gas balance ot =
     pushTrace' growcap (suicideAction address refundAddress balance) ot"

definition createExit' :: "SlicedTrace \<Rightarrow> bytes \<Rightarrow> 64 word \<Rightarrow> err \<Rightarrow> SlicedTrace" where
  "createExit' internalTrace output gasUsed err =
    (case err of
       Some m \<Rightarrow> internalTrace\<lparr>Error := m, Result := None\<rparr>
     | None \<Rightarrow> internalTrace\<lparr>Result :=
         Some \<lparr>GasUsed = gasUsed, Output = [], Code = output,
               ResultAddress = Address (Action internalTrace)\<rparr>\<rparr>)"

definition callExit' :: "SlicedTrace \<Rightarrow> bytes \<Rightarrow> 64 word \<Rightarrow> err \<Rightarrow> SlicedTrace" where
  "callExit' internalTrace output gasUsed err =
    (case err of
       Some m \<Rightarrow> internalTrace\<lparr>Error := m, Result := None\<rparr>
     | None \<Rightarrow> internalTrace\<lparr>Result :=
         Some \<lparr>GasUsed = gasUsed, Output = output, Code = [], ResultAddress = None\<rparr>\<rparr>)"

definition suicideExit' :: "SlicedTrace \<Rightarrow> bytes \<Rightarrow> 64 word \<Rightarrow> err \<Rightarrow> SlicedTrace" where
  "suicideExit' internalTrace output gasUsed err =
    (case err of
       Some m \<Rightarrow> internalTrace\<lparr>Error := m, Result := None\<rparr>
     | None \<Rightarrow> internalTrace)"

definition CaptureStart' ::
  "(nat \<Rightarrow> nat \<Rightarrow> nat) \<Rightarrow> address \<Rightarrow> address \<Rightarrow> bool \<Rightarrow> bytes \<Rightarrow> 64 word \<Rightarrow> int option \<Rightarrow>
   OeTracer' \<Rightarrow> OeTracer'" where
  "CaptureStart' growcap from to create input gas val ot =
    (if create then createEnter' growcap from to input gas val ot
     else callEnter' growcap CallTypeCall from to input gas val ot)"

definition CaptureEnd' :: "bytes \<Rightarrow> 64 word \<Rightarrow> err \<Rightarrow> OeTracer' \<Rightarrow> OeTracer' option" where
  "CaptureEnd' output gasUsed err ot =
    (if traceStack' ot = [] then None
     else let top = last (traceStack' ot);
              internalTrace = traces ot ! top;
              closed = (if CallType (Action internalTrace) = CallTypeCreate
                        then createExit' internalTrace output gasUsed err
                        else callExit' internalTrace output gasUsed err);
              traces' = (traces ot)[top := closed]
          in Some (ot\<lparr>traceStack' := butlast (traceStack' ot), traces := traces',
                      outPutTraces := outPutTraces ot @ traces'\<rparr>))"

definition CaptureEnter' ::
  "(nat \<Rightarrow> nat \<Rightarrow> nat) \<Rightarrow> OpCode \<Rightarrow> address \<Rightarrow> address \<Rightarrow> bytes \<Rightarrow> 64 word \<Rightarrow> int option \<Rightarrow>
   OeTracer' \<Rightarrow> OeTracer'" where
  "CaptureEnter' growcap ty from to input gas val ot =
    (if ty = CREATE \<or> ty = CREATE2 then createEnter' growcap from to input gas val ot
     else if ty = CALL then callEnter' growcap CallTypeCall from to input gas val ot
     else if ty = CALLCODE then callEnter' growcap CallTypeCallCode from to input gas val ot
     else if ty = DELEGATECALL then callEnter' growcap CallTypeDelegateCall from to input gas val ot
     else if ty = STATICCALL then callEnter' growcap CallTypeStaticCall from to input gas val ot
     else if ty = SELFDESTRUCT then suicideEnter' growcap from to input gas val ot
     else ot)"

definition CaptureExit' :: "bytes \<Rightarrow> 64 word \<Rightarrow> err \<Rightarrow> OeTracer' \<Rightarrow> OeTracer' option" where
  "CaptureExit' output gasUsed err ot =
    (if traceStack' ot = [] then None
     else let top = last (traceStack' ot);
              internalTrace = traces ot ! top;
              ot' = ot\<lparr>traceStack' := butlast (traceStack' ot)\<rparr>;
              ct = CallType (Action internalTrace)
          in Some (if ct = CallTypeCreate
                   then ot'\<lparr>traces := (traces ot)[top := createExit' internalTrace output gasUsed err]\<rparr>
                   else if ct = CallTypeCall \<or> ct = CallTypeCallCode \<or>
                           ct = CallTypeDelegateCall \<or> ct = CallTypeStaticCall
                   then ot'\<lparr>traces := (traces ot)[top := callExit' internalTrace output gasUsed err]\<rparr>
                   else if ct = CallTypeSuicide
                   then ot'\<lparr>traces := (traces ot)[top := suicideExit' internalTrace output gasUsed err]\<rparr>
                   else ot'))"

text \<open>\<^verbatim>\<open>CaptureState\<close> and \<^verbatim>\<open>CaptureFault\<close> of this tracer have empty bodies.\<close>

fun step' :: "(nat \<Rightarrow> nat \<Rightarrow> nat) \<Rightarrow> Event \<Rightarrow> OeTracer' \<Rightarrow> OeTracer' option" where
  "step' growcap (EvStart e from to create input gas val) ot =
     Some (CaptureStart' growcap from to create input gas val ot)"
| "step' growcap (EvEnd output gasUsed err) ot = CaptureEnd' output gasUsed err ot"
| "step' growcap (EvEnter ty from to input gas val) ot =
     Some (CaptureEnter' growcap ty from to input gas val ot)"
| "step' growcap (EvExit output gasUsed err) ot = CaptureExit' output gasUsed err ot"
| "step' growcap (EvState op gas scope depth err) ot = Some ot"
| "step' growcap EvFault ot = Some ot"

fun run' :: "(nat \<Rightarrow> nat \<Rightarrow> nat) \<Rightarrow> Event list \<Rightarrow> OeTracer' \<Rightarrow> OeTracer' option" where
  "run' growcap [] ot = Some ot"
| "run' growcap (e # es) ot =
     (case step' growcap e ot of None \<Rightarrow> None | Some ot' \<Rightarrow> run' growcap es ot')"

text \<open>
  A root call whose callee makes two calls, the first of which (\<open>twoCalls1\<close>) has just
  been entered; then it returns and the second is entered (\<open>twoCalls2\<close>).
\<close>

definition twoCalls1 :: "Event list" where
  "twoCalls1 =
     [EvStart evm0 1 2 False [] 100000 (Some 0),
      EvEnter CALL 2 3 [] 50000 (Some 0),
      EvEnter CALL 3 4 [] 20000 (Some 0)]"

definition twoCalls2 :: "Event list" where
  "twoCalls2 = twoCalls1 @ [EvExit [] 100 None, EvEnter CALL 3 5 [] 20000 (Some 0)]"

text \<open>
  The growth of the gc runtime for elements of four bytes while the array stays within
  32 bytes: the capacity doubles, or is the needed length if that is more, and the byte
  size is rounded up to a multiple of 8. For a nil slice and one element it is 2.
\<close>

definition gcGrow :: "nat \<Rightarrow> nat \<Rightarrow> nat" where
  "gcGrow c n = (let m = (if 2 * c < n then n else 2 * c) in 2 * ((m + 1) div 2))"

definition twoCallsAll :: "Event list" where
  "twoCallsAll = twoCalls2 @ [EvExit [] 200 None, EvExit [] 300 None, EvEnd [] 400 None]"

section \<open>The tree strategy: flattening pass of package txtrace\<close>

text \<open>
  \<^verbatim>\<open>TAction\<close>, \<^verbatim>\<open>TResult\<close> and \<^verbatim>\<open>ActionTrace\<close> of the tree tracer; their field names
  carry a prefix, since the streaming tracer's records use the same names. The block
  and transaction fields of \<^verbatim>\<open>ActionTrace\<close> are not touched by the pass and are left out.
  A node owns the list of its children, so it is a tree.
\<close>

record TAction =
  a_CallType :: "string option"
  a_From :: "address option"
  a_To :: "address option"
  a_Value :: int
  a_Gas :: "64 word"
  a_Init :: bytes
  a_Input :: bytes
  a_Address :: "address option"
  a_RefundAddress :: "address option"
  a_Balance :: "int option"

record TResult =
  r_GasUsed :: "64 word"
  r_Output :: "bytes option"
  r_Code :: bytes
  r_Address :: "address option"
  r_RetOffset :: "64 word"
  r_RetSize :: "64 word"

record TraceFields =
  t_Subtraces :: "64 word"
  t_TraceAddress :: "32 word list"
  t_TraceType :: string
  t_Action :: TAction
  t_Result :: "TResult option"
  t_Error :: string

datatype ActionTrace = ActionTrace (fieldsOf: TraceFields) (childTraces: "ActionTrace list")

definition SELFDESTRUCT_type :: string where
  "SELFDESTRUCT_type = ''suicide''"

text \<open>
  The body of the loop of \<^verbatim>\<open>processTrace\<close> up to the call of \<^verbatim>\<open>AddTrace\<close>, on the fields
  of the parent (\<^verbatim>\<open>trace\<close>) and of the child.
\<close>

definition renderChild :: "TraceFields \<Rightarrow> TraceFields \<Rightarrow> TraceFields" where
  "renderChild trace childTrace =
    (let c1 = (case t_Result childTrace of
                 None \<Rightarrow> childTrace
               | Some r \<Rightarrow>
                   if a_Gas (t_Action trace) > r_GasUsed r
                   then childTrace\<lparr>t_Action := (t_Action childTrace)
                          \<lparr>a_Gas := a_Gas (t_Action trace) - r_GasUsed r\<rparr>\<rparr>
                   else childTrace\<lparr>t_Action := (t_Action childTrace)\<lparr>a_Gas := r_GasUsed r\<rparr>\<rparr>)
     in if t_TraceType c1 = SELFDESTRUCT_type
        then c1\<lparr>t_Action := (t_Action c1)\<lparr>a_Gas := 0, a_From := None\<rparr>, t_Result := None\<rparr>
        else c1)"

text \<open>
  \<^verbatim>\<open>processTrace(trace)\<close> is always called with a pointer to the last element of
  \<^verbatim>\<open>callTrace.Actions\<close>: by \<^verbatim>\<open>processLastTrace\<close>, and by itself on
  \<^verbatim>\<open>callTrace.lastTrace()\<close> right after \<^verbatim>\<open>AddTrace\<close>. In \<open>processTrace before trace\<close> the
  slice \<^verbatim>\<open>Actions\<close> is \<open>before @ [trace]\<close>, and the result is the slice when the call returns.
  The count of children is written through the pointer before anything is appended;
  the loop then reads only \<^verbatim>\<open>trace.Action.Gas\<close> and the children, which no later step
  writes, so a pointer left behind by a reallocation of the slice reads the same values.
  \<^verbatim>\<open>AddTrace\<close> appends a copy of the child struct, made after the loop body changed the
  child.
\<close>

function processTrace :: "ActionTrace list \<Rightarrow> ActionTrace \<Rightarrow> ActionTrace list" where
  "processTrace before (ActionTrace f cs) =
    (let trace = f\<lparr>t_Subtraces := of_nat (length cs)\<rparr>
     in fold (\<lambda>childTrace Actions.
               processTrace Actions
                 (ActionTrace (renderChild trace (fieldsOf childTrace)) (childTraces childTrace)))
          cs (before @ [ActionTrace trace cs]))"
  by pat_completeness auto
lemma size_rendered_child:
  "x \<in> set cs \<Longrightarrow> size (ActionTrace g (childTraces x)) \<le> size_list size cs"
  by (cases x) (simp add: size_list_estimation')

termination processTrace
  by (relation "measure (\<lambda>(before, trace). size trace)")
     (auto simp: less_Suc_eq_le dest: size_rendered_child)

declare processTrace.simps [simp del]

text \<open>\<^verbatim>\<open>processLastTrace\<close>; indexing an empty slice panics.\<close>

definition processLastTrace :: "ActionTrace list \<Rightarrow> ActionTrace list option" where
  "processLastTrace Actions =
    (if Actions = [] then None else Some (processTrace (butlast Actions) (last Actions)))"

subsection \<open>The pass as the specification words it\<close>

text \<open>
  Walk the children of a node in order; a child that has a result gets as gas the
  parent's gas minus the gas the child used if that difference is positive, else the
  gas the child used; a self-destruct child gets gas zero, no sender and no result; the
  child is appended to the flat list and its own children are walked.
\<close>

definition spec_gas :: "64 word \<Rightarrow> 64 word \<Rightarrow> 64 word" where
  "spec_gas parentGas gasUsed =
    (if uint parentGas - uint gasUsed > 0 then word_of_int (uint parentGas - uint gasUsed)
     else gasUsed)"

definition spec_render :: "TraceFields \<Rightarrow> TraceFields \<Rightarrow> TraceFields" where
  "spec_render parent child =
    (let c = (case t_Result child of
                None \<Rightarrow> child
              | Some r \<Rightarrow> child\<lparr>t_Action := (t_Action child)
                            \<lparr>a_Gas := spec_gas (a_Gas (t_Action parent)) (r_GasUsed r)\<rparr>\<rparr>)
     in if t_TraceType child = SELFDESTRUCT_type
        then c\<lparr>t_Action := (t_Action c)\<lparr>a_Gas := 0, a_From := None\<rparr>, t_Result := None\<rparr>
        else c)"

fun flatten :: "TraceFields \<Rightarrow> ActionTrace list \<Rightarrow> ActionTrace list" where
  "flatten parent [] = []"
| "flatten parent (ActionTrace cf ccs # rest) =
     ActionTrace (spec_render parent cf) ccs # flatten (spec_render parent cf) ccs @ flatten parent rest"

text \<open>The nodes below a node in preorder, as they are.\<close>

fun preorder :: "ActionTrace list \<Rightarrow> ActionTrace list" where
  "preorder [] = []"
| "preorder (ActionTrace cf ccs # rest) = ActionTrace cf ccs # preorder ccs @ preorder rest"

text \<open>What the pass writes besides: the count of the children of every node it visits.\<close>

definition withSubtraces :: "ActionTrace \<Rightarrow> ActionTrace" where
  "withSubtraces t =
     ActionTrace ((fieldsOf t)\<lparr>t_Subtraces := of_nat (length (childTraces t))\<rparr>) (childTraces t)"

text \<open>The fields of a node the pass never writes.\<close>

definition untouched :: "ActionTrace \<Rightarrow> 32 word list \<times> string \<times> string \<times> nat" where
  "untouched t =
     (t_TraceAddress (fieldsOf t), t_TraceType (fieldsOf t), t_Error (fieldsOf t),
      length (childTraces t))"

section \<open>The API form and reading from the store (internal\_types.go)\<close>

text \<open>
  \<^verbatim>\<open>InternalActionTraces\<close>, the stored form of one transaction, and the records of the
  API form. The fields of \<^verbatim>\<open>RpcAction\<close>, \<^verbatim>\<open>RpcActionResult\<close> and \<^verbatim>\<open>RpcActionTrace\<close> carry
  the prefix \<open>rpc\<close>, since the internal records use the same names. A \<^verbatim>\<open>*big.Int\<close>, a
  \<^verbatim>\<open>*hexutil.Big\<close>, a \<^verbatim>\<open>*hexutil.Bytes\<close> and a \<^verbatim>\<open>*string\<close> are options.
\<close>

record InternalActionTraces =
  ITraces :: "Trace list"
  BlockHash :: hash
  BlockNumber :: "int option"
  TransactionHash :: hash
  TransactionPosition :: "64 word"

record RpcAction =
  rpcCallType :: "string option"
  rpcFrom :: "address option"
  rpcTo :: "address option"
  rpcValue :: "int option"
  rpcGas :: "64 word"
  rpcInit :: bytes
  rpcInput :: bytes
  rpcAddress :: "address option"
  rpcRefundAddress :: "address option"
  rpcBalance :: "int option"

record RpcActionResult =
  rpcGasUsed :: "64 word"
  rpcOutput :: "bytes option"
  rpcCode :: "bytes option"
  rpcResultAddress :: "address option"

record RpcActionTrace =
  rpcAction :: RpcAction
  rpcBlockHash :: hash
  rpcBlockNumber :: "int option"
  rpcResult :: "RpcActionResult option"
  rpcError :: string
  rpcSubtraces :: "32 word"
  rpcTraceAddress :: "32 word list"
  rpcTransactionHash :: hash
  rpcTransactionPosition :: "64 word"
  rpcTraceType :: string

text \<open>
  The three converters work on the record \<^verbatim>\<open>ToRpcTraces\<close> has started to fill.
  \<^verbatim>\<open>toRpcTraceCreate\<close> and \<^verbatim>\<open>toRpcTraceCall\<close> read \<^verbatim>\<open>interTrace.Result.Code\<close> and
  \<^verbatim>\<open>interTrace.Result.Output\<close> when the error is empty: with a nil result that is a nil
  dereference, the result \<open>None\<close>.
\<close>

definition toRpcTraceCreate :: "Trace \<Rightarrow> RpcActionTrace \<Rightarrow> RpcActionTrace option" where
  "toRpcTraceCreate interTrace rpcTrace =
    (let rpcTrace1 = rpcTrace\<lparr>rpcAction := (rpcAction rpcTrace)\<lparr>rpcFrom := From (Action interTrace)\<rparr>\<rparr>
     in if Error interTrace \<noteq> [] then Some (rpcTrace1\<lparr>rpcError := Error interTrace\<rparr>)
        else case Result interTrace of
               None \<Rightarrow> None
             | Some res \<Rightarrow>
                 Some (rpcTrace1\<lparr>rpcResult :=
                   Some \<lparr>rpcGasUsed = GasUsed res, rpcOutput = None, rpcCode = Some (Code res),
                         rpcResultAddress = ResultAddress res\<rparr>\<rparr>))"

definition toRpcTraceCall :: "Trace \<Rightarrow> RpcActionTrace \<Rightarrow> RpcActionTrace option" where
  "toRpcTraceCall interTrace rpcTrace =
    (let ct = CallType (Action interTrace);
         name = (if ct = CallTypeCall then ''call''
                 else if ct = CallTypeCallCode then ''callcode''
                 else if ct = CallTypeDelegateCall then ''delegatecall''
                 else if ct = CallTypeStaticCall then ''staticcall''
                 else ''call'');
         rpcTrace1 = rpcTrace\<lparr>rpcAction := (rpcAction rpcTrace)
                       \<lparr>rpcCallType := Some name, rpcFrom := From (Action interTrace),
                        rpcTo := To (Action interTrace)\<rparr>\<rparr>
     in if Error interTrace \<noteq> [] then Some (rpcTrace1\<lparr>rpcError := Error interTrace\<rparr>)
        else case Result interTrace of
               None \<Rightarrow> None
             | Some res \<Rightarrow>
                 Some (rpcTrace1\<lparr>rpcResult :=
                   Some \<lparr>rpcGasUsed = GasUsed res, rpcOutput = Some (Output res), rpcCode = None,
                         rpcResultAddress = None\<rparr>\<rparr>))"

definition toRpcTraceSuicide :: "Trace \<Rightarrow> RpcActionTrace \<Rightarrow> RpcActionTrace" where
  "toRpcTraceSuicide interTrace rpcTrace =
    rpcTrace\<lparr>rpcAction := (rpcAction rpcTrace)
      \<lparr>rpcAddress := Address (Action interTrace),
       rpcRefundAddress := RefundAddress (Action interTrace),
       rpcValue := None,
       rpcBalance := Some (case Balance (Action interTrace) of None \<Rightarrow> 0 | Some b \<Rightarrow> b)\<rparr>\<rparr>"

text \<open>The body of the loop of \<^verbatim>\<open>ToRpcTraces\<close>, for one internal trace.\<close>

definition toRpcTrace :: "InternalActionTraces \<Rightarrow> Trace \<Rightarrow> RpcActionTrace option" where
  "toRpcTrace it interTrace =
    (let val = (case Value (Action interTrace) of None \<Rightarrow> 0 | Some v \<Rightarrow> v);
         rpcTrace =
           \<lparr>rpcAction =
              \<lparr>rpcCallType = None, rpcFrom = None, rpcTo = None, rpcValue = Some val,
               rpcGas = Gas (Action interTrace), rpcInit = Init (Action interTrace),
               rpcInput = Input (Action interTrace), rpcAddress = None,
               rpcRefundAddress = None, rpcBalance = None\<rparr>,
            rpcBlockHash = BlockHash it, rpcBlockNumber = BlockNumber it,
            rpcResult = None, rpcError = [], rpcSubtraces = Subtraces interTrace,
            rpcTraceAddress = TraceAddress interTrace,
            rpcTransactionHash = TransactionHash it,
            rpcTransactionPosition = TransactionPosition it, rpcTraceType = []\<rparr>
     in if CallType (Action interTrace) = CallTypeCreate
        then toRpcTraceCreate interTrace (rpcTrace\<lparr>rpcTraceType := ''create''\<rparr>)
        else if CallType (Action interTrace) = CallTypeSuicide
        then Some (toRpcTraceSuicide interTrace (rpcTrace\<lparr>rpcTraceType := ''suicide''\<rparr>))
        else toRpcTraceCall interTrace (rpcTrace\<lparr>rpcTraceType := ''call''\<rparr>))"

fun toRpcLoop :: "InternalActionTraces \<Rightarrow> Trace list \<Rightarrow> RpcActionTrace list \<Rightarrow> RpcActionTrace list option" where
  "toRpcLoop it [] rpcTraces = Some rpcTraces"
| "toRpcLoop it (interTrace # rest) rpcTraces =
     (case toRpcTrace it interTrace of
        None \<Rightarrow> None
      | Some rpcTrace \<Rightarrow> toRpcLoop it rest (rpcTraces @ [rpcTrace]))"

definition ToRpcTraces :: "InternalActionTraces \<Rightarrow> RpcActionTrace list option" where
  "ToRpcTraces it = toRpcLoop it (ITraces it) []"

text \<open>
  \<^verbatim>\<open>ReadRpcTxTrace\<close>. The store and \<^verbatim>\<open>rlp.DecodeBytes\<close> are not part of this repository:
  \<open>store\<close> answers a hash with an error message or with bytes, \<open>decode\<close> answers bytes
  with an error message or with the decoded traces, and \<open>fmtHash\<close> is what the verb
  \<^verbatim>\<open>%#v\<close> prints for the hash. The result is \<open>None\<close> when \<^verbatim>\<open>ToRpcTraces\<close> panics, an error
  message, or the API traces.
\<close>

definition ReadRpcTxTrace ::
  "(hash \<Rightarrow> string + bytes) \<Rightarrow> (bytes \<Rightarrow> string + InternalActionTraces) \<Rightarrow> (hash \<Rightarrow> string) \<Rightarrow>
   hash \<Rightarrow> (string + RpcActionTrace list) option" where
  "ReadRpcTxTrace store decode fmtHash txHash =
    (case store txHash of
       Inl err \<Rightarrow> Some (Inl err)
     | Inr raw \<Rightarrow>
         if raw = []
         then Some (Inl (''trace result of tx {'' @ fmtHash txHash @ ''} not found in tracedb''))
         else case decode raw of
                Inl err \<Rightarrow> Some (Inl (''failed to decode rlp traces: '' @ err))
              | Inr interTxs \<Rightarrow>
                  (case ToRpcTraces interTxs of
                     None \<Rightarrow> None
                   | Some rpcTraces \<Rightarrow> Some (Inr rpcTraces)))"

subsection \<open>Concrete stored traces\<close>

text \<open>
  A stored transaction with one self-destruct whose internal error is set, a store that
  holds nothing under hash 1 and some bytes under hash 2, and a decoder that answers
  those bytes with that transaction.
\<close>

definition failedSuicide :: Trace where
  "failedSuicide =
     \<lparr>Action = suicideAction 3 1 (Some 7), Result = None, Error = ''out of gas'',
      TraceAddress = [0, 0], Subtraces = 0\<rparr>"

definition storedTx :: InternalActionTraces where
  "storedTx = \<lparr>ITraces = [failedSuicide], BlockHash = 9, BlockNumber = Some 100,
               TransactionHash = 2, TransactionPosition = 0\<rparr>"

definition store0 :: "hash \<Rightarrow> string + bytes" where
  "store0 h = (if h = 1 then Inr [] else if h = 2 then Inr [0xC1, 0xC0] else Inl ''tx not found'')"

definition decode0 :: "bytes \<Rightarrow> string + InternalActionTraces" where
  "decode0 raw = (if raw = [0xC1, 0xC0] then Inr storedTx else Inl ''rlp: unexpected input'')"

definition fmtHash0 :: "hash \<Rightarrow> string" where
  "fmtHash0 h = ''hash''"

section \<open>Proofs about the streaming tracer\<close>

lemmas CallType_defs =
  CallTypeCreate_def CallTypeCall_def CallTypeCallCode_def
  CallTypeDelegateCall_def CallTypeStaticCall_def CallTypeSuicide_def

lemma pushTrace_stack [simp]: "traceStack (pushTrace a ot) = traceStack ot @ [length (Traces ot)]"
  by (simp add: pushTrace_def Let_def)

lemma pushTrace_env [simp]: "env (pushTrace a ot) = env ot"
  by (simp add: pushTrace_def Let_def)

lemma pushTrace_length [simp]: "length (Traces (pushTrace a ot)) = Suc (length (Traces ot))"
  by (simp add: pushTrace_def Let_def)

lemma pushTrace_new:
  "Traces (pushTrace a ot) ! length (Traces ot) =
     \<lparr>Action = a, Result = None, Error = [],
      TraceAddress = (if traceStack ot = [] then []
                      else TraceAddress (Traces ot ! last (traceStack ot)) @
                           [Subtraces (Traces ot ! last (traceStack ot))]),
      Subtraces = 0\<rparr>"
  by (simp add: pushTrace_def Let_def nth_append)

lemma pushTrace_old:
  "i < length (Traces ot) \<Longrightarrow>
   Traces (pushTrace a ot) ! i =
     (if traceStack ot \<noteq> [] \<and> i = last (traceStack ot)
      then (Traces ot ! i)\<lparr>Subtraces := Subtraces (Traces ot ! i) + 1\<rparr>
      else Traces ot ! i)"
  by (simp add: pushTrace_def Let_def nth_append)

lemma closed_as_createExit: "closed_as t err (createExit t out g err)"
  by (simp add: closed_as_def createExit_def split: option.splits)

lemma closed_as_callExit: "closed_as t err (callExit t out g err)"
  by (simp add: closed_as_def callExit_def split: option.splits)

lemma closed_as_suicideExit:
  "CallType (Action t) = CallTypeSuicide \<Longrightarrow> closed_as t err (suicideExit t out g err)"
  by (simp add: closed_as_def suicideExit_def callish_def CallType_defs split: option.splits)

lemma closed_as_unknown:
  "\<not> known_kind (CallType (Action t)) \<Longrightarrow> closed_as t err t"
  by (simp add: closed_as_def)

lemma prim_exit:
  assumes "CaptureExit out g err ot = Some ot'" and "S \<longrightarrow> err \<noteq> Some []"
  shows "prim S ot ot'"
proof -
  let ?top = "last (traceStack ot)"
  let ?t = "Traces ot ! ?top"
  from assms(1) have ne: "traceStack ot \<noteq> []"
    by (auto simp: CaptureExit_def split: if_splits)
  have "\<exists>n'. closed_as ?t err n' \<and>
          ot' = ot\<lparr>traceStack := butlast (traceStack ot), Traces := (Traces ot)[?top := n']\<rparr>"
  proof (cases "CallType (Action ?t) = CallTypeCreate")
    case True
    with assms(1) ne have "ot' = ot\<lparr>traceStack := butlast (traceStack ot),
        Traces := (Traces ot)[?top := createExit ?t out g err]\<rparr>"
      by (simp add: CaptureExit_def Let_def)
    then show ?thesis using closed_as_createExit by blast
  next
    case nc: False
    show ?thesis
    proof (cases "callish (CallType (Action ?t))")
      case True
      with nc assms(1) ne have "ot' = ot\<lparr>traceStack := butlast (traceStack ot),
          Traces := (Traces ot)[?top := callExit ?t out g err]\<rparr>"
        by (auto simp add: CaptureExit_def Let_def callish_def)
      then show ?thesis using closed_as_callExit by blast
    next
      case ncl: False
      show ?thesis
      proof (cases "CallType (Action ?t) = CallTypeSuicide")
        case True
        with nc ncl assms(1) ne have "ot' = ot\<lparr>traceStack := butlast (traceStack ot),
            Traces := (Traces ot)[?top := suicideExit ?t out g err]\<rparr>"
          by (auto simp add: CaptureExit_def Let_def callish_def)
        then show ?thesis using closed_as_suicideExit [OF True] by blast
      next
        case False
        with nc ncl assms(1) ne have "ot' = ot\<lparr>traceStack := butlast (traceStack ot)\<rparr>"
          by (auto simp add: CaptureExit_def Let_def callish_def)
        then have "ot' = ot\<lparr>traceStack := butlast (traceStack ot),
            Traces := (Traces ot)[?top := ?t]\<rparr>" by simp
        moreover have "closed_as ?t err ?t"
          using False ncl by (simp add: closed_as_unknown known_kind_def)
        ultimately show ?thesis by blast
      qed
    qed
  qed
  then show ?thesis using prim_pop [OF ne _ assms(2)] by blast
qed

lemma prim_end:
  assumes "CaptureEnd out g err ot = Some ot'" and "S \<longrightarrow> err \<noteq> Some []"
  shows "prim S ot ot'"
proof -
  let ?top = "last (traceStack ot)"
  let ?t = "Traces ot ! ?top"
  from assms(1) have ne: "traceStack ot \<noteq> []"
    by (auto simp: CaptureEnd_def split: if_splits)
  have "\<exists>n'. closed_as ?t err n' \<and>
          ot' = ot\<lparr>traceStack := butlast (traceStack ot), Traces := (Traces ot)[?top := n']\<rparr>"
  proof (cases "CallType (Action ?t) = CallTypeCreate")
    case True
    with assms(1) ne have "ot' = ot\<lparr>traceStack := butlast (traceStack ot),
        Traces := (Traces ot)[?top := createExit ?t out g err]\<rparr>"
      by (simp add: CaptureEnd_def Let_def)
    then show ?thesis using closed_as_createExit by blast
  next
    case False
    with assms(1) ne have "ot' = ot\<lparr>traceStack := butlast (traceStack ot),
        Traces := (Traces ot)[?top := callExit ?t out g err]\<rparr>"
      by (simp add: CaptureEnd_def Let_def)
    then show ?thesis using closed_as_callExit by blast
  qed
  then show ?thesis using prim_pop [OF ne _ assms(2)] by blast
qed

lemma CaptureEnter_prim:
  "prim S ot (CaptureEnter ty f t i g v ot) \<or> CaptureEnter ty f t i g v ot = ot"
  by (simp add: CaptureEnter_def createEnter_def callEnter_def suicideEnter_def
      createAction_def callAction_def suicideAction_def known_kind_def callish_def prim_push)

lemma prims_enter: "(prim S)\<^sup>*\<^sup>* ot (CaptureEnter ty f t i g v ot)"
  using CaptureEnter_prim [of S ot ty f t i g v] by (auto intro: r_into_rtranclp)

lemma prims_createFailed:
  "createPreProcessFailed op scope gas val err ot = Some ot' \<Longrightarrow> S \<longrightarrow> err \<noteq> Some [] \<Longrightarrow>
   (prim S)\<^sup>*\<^sup>* ot ot'"
  unfolding createPreProcessFailed_def Let_def
  by (rule rtranclp.rtrancl_into_rtrancl [OF prims_enter prim_exit])

lemma prims_callFailed:
  "callPreProcessFailed op scope gas val err ot = Some ot' \<Longrightarrow> S \<longrightarrow> err \<noteq> Some [] \<Longrightarrow>
   (prim S)\<^sup>*\<^sup>* ot ot'"
  unfolding callPreProcessFailed_def Let_def
  by (rule rtranclp.rtrancl_into_rtrancl [OF prims_enter prim_exit])

lemma check_strict:
  "ErrDepth K \<noteq> [] \<Longrightarrow> checkDepthAboveLitmit K d \<noteq> Some []"
  "ErrInsufficientBalance K \<noteq> [] \<Longrightarrow> checkCanTransfer K ot a v \<noteq> Some (Some [])"
  "ErrNonceUintOverflow K \<noteq> [] \<Longrightarrow> checkNonceMatch K ot a \<noteq> Some (Some [])"
  "ErrContractAddressCollision K \<noteq> [] \<Longrightarrow> checkContractNotExist K ot a \<noteq> Some (Some [])"
  by (auto simp: checkDepthAboveLitmit_def checkCanTransfer_def checkNonceMatch_def
      checkContractNotExist_def Let_def split: option.splits if_splits)

lemma prims_stateCreate:
  assumes "stateCreate K op gas scope depth err ot = Some ot'"
    and "S \<longrightarrow> strict_ev K (EvState op gas scope depth err)"
  shows "(prim S)\<^sup>*\<^sup>* ot ot'"
proof -
  from assms(1) have "ot' = ot \<or> (\<exists>v e. createPreProcessFailed op scope gas v e ot = Some ot' \<and>
      (e = err \<or> e = checkDepthAboveLitmit K depth \<or>
       checkCanTransfer K ot (ContractAddress scope) (uint (Back scope 0)) = Some e \<or>
       checkNonceMatch K ot (ContractAddress scope) = Some e \<or>
       checkContractNotExist K ot (ContractAddress scope) = Some e))"
    unfolding stateCreate_def Let_def
    by (simp split: if_splits option.splits) blast+
  then show ?thesis
  proof
    assume "ot' = ot" then show ?thesis by simp
  next
    assume "\<exists>v e. createPreProcessFailed op scope gas v e ot = Some ot' \<and>
      (e = err \<or> e = checkDepthAboveLitmit K depth \<or>
       checkCanTransfer K ot (ContractAddress scope) (uint (Back scope 0)) = Some e \<or>
       checkNonceMatch K ot (ContractAddress scope) = Some e \<or>
       checkContractNotExist K ot (ContractAddress scope) = Some e)"
    then obtain v e where f: "createPreProcessFailed op scope gas v e ot = Some ot'"
      and e: "e = err \<or> e = checkDepthAboveLitmit K depth \<or>
       checkCanTransfer K ot (ContractAddress scope) (uint (Back scope 0)) = Some e \<or>
       checkNonceMatch K ot (ContractAddress scope) = Some e \<or>
       checkContractNotExist K ot (ContractAddress scope) = Some e" by blast
    have "S \<longrightarrow> e \<noteq> Some []"
    proof
      assume S
      with assms(2) have s: "err \<noteq> Some []" "ErrDepth K \<noteq> []" "ErrInsufficientBalance K \<noteq> []"
        "ErrNonceUintOverflow K \<noteq> []" "ErrContractAddressCollision K \<noteq> []" by simp_all
      show "e \<noteq> Some []"
        using e s(1) check_strict(1) [OF s(2)] check_strict(2) [OF s(3)]
          check_strict(3) [OF s(4)] check_strict(4) [OF s(5)]
        by (elim disjE) (simp_all, (metis+)?)
    qed
    with f show ?thesis by (rule prims_createFailed)
  qed
qed

lemma prims_stateCall:
  assumes "stateCall K op gas scope depth err ot = Some ot'"
    and "S \<longrightarrow> strict_ev K (EvState op gas scope depth err)"
  shows "(prim S)\<^sup>*\<^sup>* ot ot'"
proof -
  from assms(1) have "ot' = ot \<or> (\<exists>v e. callPreProcessFailed op scope gas v e ot = Some ot' \<and>
      (e = checkDepthAboveLitmit K depth \<or>
       checkCanTransfer K ot (ContractAddress scope) (uint (Back scope 2)) = Some e))"
    unfolding stateCall_def Let_def
    by (simp split: if_splits option.splits) blast+
  then show ?thesis
  proof
    assume "ot' = ot" then show ?thesis by simp
  next
    assume "\<exists>v e. callPreProcessFailed op scope gas v e ot = Some ot' \<and>
      (e = checkDepthAboveLitmit K depth \<or>
       checkCanTransfer K ot (ContractAddress scope) (uint (Back scope 2)) = Some e)"
    then obtain v e where f: "callPreProcessFailed op scope gas v e ot = Some ot'"
      and e: "e = checkDepthAboveLitmit K depth \<or>
       checkCanTransfer K ot (ContractAddress scope) (uint (Back scope 2)) = Some e" by blast
    have "S \<longrightarrow> e \<noteq> Some []"
    proof
      assume S
      with assms(2) have s: "err \<noteq> Some []" "ErrDepth K \<noteq> []" "ErrInsufficientBalance K \<noteq> []"
        "ErrNonceUintOverflow K \<noteq> []" "ErrContractAddressCollision K \<noteq> []" by simp_all
      show "e \<noteq> Some []"
        using e s(1) check_strict(1) [OF s(2)] check_strict(2) [OF s(3)]
          check_strict(3) [OF s(4)] check_strict(4) [OF s(5)]
        by (elim disjE) (simp_all, (metis+)?)
    qed
    with f show ?thesis by (rule prims_callFailed)
  qed
qed

lemma prims_stateDelegate:
  assumes "stateDelegate K op gas scope depth err ot = Some ot'"
    and "S \<longrightarrow> strict_ev K (EvState op gas scope depth err)"
  shows "(prim S)\<^sup>*\<^sup>* ot ot'"
proof -
  from assms(1) have "ot' = ot \<or> (\<exists>e. callPreProcessFailed op scope gas None e ot = Some ot' \<and>
      (e = err \<or> e = checkDepthAboveLitmit K depth))"
    unfolding stateDelegate_def
    by (auto split: if_splits)
  then show ?thesis
  proof
    assume "ot' = ot" then show ?thesis by simp
  next
    assume "\<exists>e. callPreProcessFailed op scope gas None e ot = Some ot' \<and>
      (e = err \<or> e = checkDepthAboveLitmit K depth)"
    then obtain e where f: "callPreProcessFailed op scope gas None e ot = Some ot'"
      and e: "e = err \<or> e = checkDepthAboveLitmit K depth" by blast
    have "S \<longrightarrow> e \<noteq> Some []"
    proof
      assume S
      with assms(2) have s: "err \<noteq> Some []" "ErrDepth K \<noteq> []" "ErrInsufficientBalance K \<noteq> []"
        "ErrNonceUintOverflow K \<noteq> []" "ErrContractAddressCollision K \<noteq> []" by simp_all
      show "e \<noteq> Some []"
        using e s(1) check_strict(1) [OF s(2)] check_strict(2) [OF s(3)]
          check_strict(3) [OF s(4)] check_strict(4) [OF s(5)]
        by (elim disjE) (simp_all, (metis+)?)
    qed
    with f show ?thesis by (rule prims_callFailed)
  qed
qed

lemma prims_state:
  assumes "CaptureState K op gas scope depth err ot = Some ot'"
    and "S \<longrightarrow> strict_ev K (EvState op gas scope depth err)"
  shows "(prim S)\<^sup>*\<^sup>* ot ot'"
proof -
  from assms(1) have "stateCreate K op gas scope depth err ot = Some ot' \<or>
    stateCall K op gas scope depth err ot = Some ot' \<or>
    stateDelegate K op gas scope depth err ot = Some ot' \<or>
    stateRevert ot = Some ot' \<or> ot' = ot"
    unfolding CaptureState_def by (simp split: if_splits)
  then show ?thesis
    using prims_stateCreate [OF _ assms(2)] prims_stateCall [OF _ assms(2)]
      prims_stateDelegate [OF _ assms(2)] prim_revert [of ot ot' S]
    by (elim disjE) (simp_all add: r_into_rtranclp)
qed

lemma step_prims:
  assumes "step K ev ot = Some ot'" and "S \<longrightarrow> strict_ev K ev"
  shows "(prim S)\<^sup>*\<^sup>* ot ot'"
proof (cases ev)
  case (EvStart e f t c i g v)
  have k: "known_kind (CallType (createAction f t i g v))"
    "known_kind (CallType (callAction CallTypeCall f t i g v))"
    by (simp_all add: known_kind_def callish_def createAction_def callAction_def)
  have "(prim S)\<^sup>*\<^sup>* ot (pushTrace a ot\<lparr>env := Some e\<rparr>)" if "known_kind (CallType a)" for a
  proof -
    have "prim S ot (pushTrace a ot)" using that by (rule prim_push)
    then have "(prim S)\<^sup>*\<^sup>* ot (pushTrace a ot)" by (rule r_into_rtranclp)
    moreover have "prim S (pushTrace a ot) (pushTrace a ot\<lparr>env := Some e\<rparr>)" by (rule prim_env)
    ultimately show ?thesis by (rule rtranclp.rtrancl_into_rtrancl)
  qed
  from this [OF k(1)] this [OF k(2)] assms(1) EvStart show ?thesis
    by (auto simp add: CaptureStart_def createEnter_def callEnter_def)
next
  case (EvEnd out g e)
  then show ?thesis using assms prim_end [of out g e ot ot' S] by (simp add: r_into_rtranclp)
next
  case (EvEnter ty f t i g v)
  then show ?thesis using assms(1) prims_enter [of S ot ty f t i g v] by auto
next
  case (EvExit out g e)
  then show ?thesis using assms prim_exit [of out g e ot ot' S] by (simp add: r_into_rtranclp)
next
  case (EvState op g sc d e)
  then show ?thesis using assms prims_state [of K op g sc d e ot ot' S] by simp
next
  case EvFault
  then show ?thesis using assms(1) by simp
qed

lemma run_prims:
  "run K evs ot = Some ot' \<Longrightarrow> S \<longrightarrow> list_all (strict_ev K) evs \<Longrightarrow> (prim S)\<^sup>*\<^sup>* ot ot'"
proof (induction evs arbitrary: ot)
  case Nil
  then show ?case by simp
next
  case (Cons e es)
  then obtain ot1 where s: "step K e ot = Some ot1" and r: "run K es ot1 = Some ot'"
    by (auto split: option.splits)
  from Cons.prems(2) have a: "S \<longrightarrow> strict_ev K e" and b: "S \<longrightarrow> list_all (strict_ev K) es"
    by simp_all
  from step_prims [OF s a] Cons.IH [OF r b] show ?case by (rule rtranclp_trans)
qed

lemma last_notin_butlast: "distinct xs \<Longrightarrow> xs \<noteq> [] \<Longrightarrow> last xs \<notin> set (butlast xs)"
  by (induction xs) auto

lemma in_butlast_or_last: "i \<in> set xs \<Longrightarrow> i = last xs \<or> i \<in> set (butlast xs)"
  by (induction xs) auto

lemma nth_update_if: "j < length xs \<Longrightarrow> xs[i := x] ! j = (if i = j then x else xs ! j)"
  by (cases "i = j") simp_all

lemma inv_NewOeTracer: "inv NewOeTracer"
  by (simp add: inv_def wf_stack_def kinds_ok_def NewOeTracer_def)

lemma stateRevert_SomeD:
  "stateRevert ot = Some ot' \<Longrightarrow> traceStack ot \<noteq> [] \<and>
     ot' = ot\<lparr>Traces := (Traces ot)[last (traceStack ot) :=
              (Traces ot ! last (traceStack ot))\<lparr>Error := ''execution reverted''\<rparr>]\<rparr>"
  by (auto simp: stateRevert_def Let_def split: if_splits)

lemma prim_inv:
  assumes "prim S ot ot'" and "inv ot"
  shows "inv ot'"
  using assms
proof (cases rule: prim.cases)
  case (prim_push a)
  have w: "wf_stack ot'"
    using assms(2) prim_push
    by (auto simp: inv_def wf_stack_def less_Suc_eq)
  have "known_kind (CallType (Action (Traces ot' ! i)))" if "i < length (Traces ot')" for i
  proof (cases "i < length (Traces ot)")
    case True
    then show ?thesis using assms(2) prim_push
      by (simp add: pushTrace_old inv_def kinds_ok_def)
  next
    case False
    with that prim_push have "i = length (Traces ot)" by simp
    then show ?thesis using prim_push by (simp add: pushTrace_new)
  qed
  then show ?thesis using w by (simp add: inv_def kinds_ok_def)
next
  case (prim_env e)
  then show ?thesis using assms(2) by (simp add: inv_def wf_stack_def kinds_ok_def)
next
  case (prim_pop err n')
  let ?top = "last (traceStack ot)"
  from assms(2) prim_pop have top: "?top < length (Traces ot)"
    by (simp add: inv_def wf_stack_def)
  have w: "wf_stack ot'"
    using assms(2) prim_pop
    by (auto simp: inv_def wf_stack_def distinct_butlast dest: in_set_butlastD)
  have "Action n' = Action (Traces ot ! ?top)"
    using prim_pop(3) by (auto simp: closed_as_def)
  then have "known_kind (CallType (Action (Traces ot' ! i)))" if "i < length (Traces ot')" for i
    using that assms(2) prim_pop(1)
    by (cases "i = ?top") (simp_all add: inv_def kinds_ok_def)
  then show ?thesis using w by (simp add: inv_def kinds_ok_def)
next
  case prim_revert
  from stateRevert_SomeD [OF prim_revert] assms(2) show ?thesis
    by (auto simp: inv_def wf_stack_def kinds_ok_def nth_update_if)
qed

lemma prim_frame:
  assumes "prim S ot ot'" and "inv ot"
  shows "frame ot ot'"
  using assms
proof (cases rule: prim.cases)
  case (prim_push a)
  have "last (traceStack ot) \<in> set (traceStack ot)" if "traceStack ot \<noteq> []"
    using that by simp
  then show ?thesis using assms(2) prim_push
    by (auto simp: frame_def pushTrace_old inv_def wf_stack_def)
next
  case (prim_env e)
  then show ?thesis by (simp add: frame_def)
next
  case (prim_pop err n')
  let ?top = "last (traceStack ot)"
  have a: "Action n' = Action (Traces ot ! ?top)" "TraceAddress n' = TraceAddress (Traces ot ! ?top)"
    using prim_pop(3) by (auto simp: closed_as_def)
  have "?top \<in> set (traceStack ot)" using prim_pop(2) by simp
  then show ?thesis using prim_pop(1) a
    by (auto simp: frame_def nth_update_if dest: in_set_butlastD)
next
  case prim_revert
  from stateRevert_SomeD [OF prim_revert]
  have ne: "traceStack ot \<noteq> []" and eq: "ot' = ot\<lparr>Traces := (Traces ot)[last (traceStack ot) :=
              (Traces ot ! last (traceStack ot))\<lparr>Error := ''execution reverted''\<rparr>]\<rparr>"
    by simp_all
  have "last (traceStack ot) \<in> set (traceStack ot)" using ne by simp
  then show ?thesis unfolding eq
    by (auto simp: frame_def nth_update_if)
qed

lemma frame_refl: "frame ot ot"
  by (simp add: frame_def)

lemma frame_trans: "frame a b \<Longrightarrow> frame b c \<Longrightarrow> frame a c"
  unfolding frame_def by (auto simp: less_le_trans) 

lemma prims_inv_frame:
  "(prim S)\<^sup>*\<^sup>* ot ot' \<Longrightarrow> inv ot \<Longrightarrow> inv ot' \<and> frame ot ot'"
proof (induction rule: rtranclp_induct)
  case base
  then show ?case by (simp add: frame_refl)
next
  case (step y z)
  then have "inv y" "frame ot y" by simp_all
  with step.hyps(2) show ?case
    using prim_inv [of S y z] prim_frame [of S y z] frame_trans [of ot y z] by blast
qed

lemma closed_as_set_ok:
  "closed_as t err n' \<Longrightarrow> known_kind (CallType (Action t)) \<Longrightarrow> err \<noteq> Some [] \<Longrightarrow> set_ok n'"
  by (auto simp: closed_as_def set_ok_def split: if_splits option.splits)

lemma prim_closed_ok:
  assumes "prim True ot ot'" and "inv ot" and "closed_ok ot"
  shows "closed_ok ot'"
proof -
  have fr: "frame ot ot'" using assms(1,2) by (rule prim_frame)
  have "set_ok (Traces ot' ! i)" if i: "i < length (Traces ot')" "i \<notin> set (traceStack ot')" for i
    using assms(1)
  proof (cases rule: prim.cases)
    case (prim_push a)
    with i have "i < length (Traces ot)" "i \<notin> set (traceStack ot)"
      by (auto simp: less_Suc_eq)
    then show ?thesis using fr assms(3) by (simp add: frame_def closed_ok_def)
  next
    case (prim_env e)
    then show ?thesis using i assms(3) by (simp add: closed_ok_def)
  next
    case (prim_pop err n')
    let ?top = "last (traceStack ot)"
    from i prim_pop have il: "i < length (Traces ot)" by simp
    show ?thesis
    proof (cases "i = ?top")
      case True
      have "known_kind (CallType (Action (Traces ot ! ?top)))"
        using assms(2) il True by (simp add: inv_def kinds_ok_def)
      with prim_pop(3,4) have "set_ok n'" by (simp add: closed_as_set_ok)
      then show ?thesis using True il prim_pop(1) by simp
    next
      case False
      with i(2) prim_pop(1) in_butlast_or_last [of i "traceStack ot"]
      have "i \<notin> set (traceStack ot)" by auto
      then show ?thesis using fr il assms(3) by (simp add: frame_def closed_ok_def)
    qed
  next
    case prim_revert
    from stateRevert_SomeD [OF prim_revert] i
    have "i < length (Traces ot)" "i \<notin> set (traceStack ot)" by auto
    then show ?thesis using fr assms(3) by (simp add: frame_def closed_ok_def)
  qed
  then show ?thesis by (simp add: closed_ok_def)
qed

lemma prim_reverted:
  assumes "prim S ot ot'" and "inv ot" and "X < length (Traces ot)" and "reverted_at X ot"
  shows "reverted_at X ot'"
  using assms(1)
proof (cases rule: prim.cases)
  case (prim_push a)
  then show ?thesis using assms(3,4)
    by (auto simp: reverted_at_def pushTrace_old)
next
  case (prim_env e)
  then show ?thesis using assms(4) by (simp add: reverted_at_def)
next
  case (prim_pop err n')
  let ?top = "last (traceStack ot)"
  show ?thesis
  proof (cases "X = ?top")
    case True
    have "known_kind (CallType (Action (Traces ot ! ?top)))"
      using assms(2,3) True by (simp add: inv_def kinds_ok_def)
    moreover have "Error (Traces ot ! ?top) \<noteq> []"
      using assms(4) True by (simp add: reverted_at_def)
    ultimately have "Error n' = Error (Traces ot ! ?top) \<and> Result n' = None"
      using prim_pop(3) by (auto simp: closed_as_def)
    then show ?thesis using True assms(3,4) prim_pop(1) by (simp add: reverted_at_def)
  next
    case False
    with prim_pop(1) in_butlast_or_last [of X "traceStack ot"] assms(3,4)
    show ?thesis by (auto simp: reverted_at_def)
  qed
next
  case prim_revert
  from stateRevert_SomeD [OF prim_revert] assms(3,4) show ?thesis
    by (auto simp: reverted_at_def nth_update_if)
qed

lemma prims_closed_ok:
  "(prim True)\<^sup>*\<^sup>* ot ot' \<Longrightarrow> inv ot \<Longrightarrow> closed_ok ot \<Longrightarrow> closed_ok ot'"
proof (induction rule: rtranclp_induct)
  case base
  then show ?case by simp
next
  case (step y z)
  moreover from step have "inv y" using prims_inv_frame by blast
  ultimately show ?case using prim_closed_ok by blast
qed

lemma prims_reverted:
  "(prim S)\<^sup>*\<^sup>* ot ot' \<Longrightarrow> inv ot \<Longrightarrow> X < length (Traces ot) \<Longrightarrow> reverted_at X ot \<Longrightarrow>
   reverted_at X ot'"
proof (induction rule: rtranclp_induct)
  case base
  then show ?case by simp
next
  case (step y z)
  from step have "inv y" "frame ot y" using prims_inv_frame by blast+
  moreover from this step.prems(2) have "X < length (Traces y)" by (simp add: frame_def)
  ultimately show ?case using step prim_reverted by blast
qed

subsection \<open>Stack balance and discovery order\<close>

lemma run_append:
  "run K (xs @ ys) ot = (case run K xs ot of None \<Rightarrow> None | Some ot' \<Rightarrow> run K ys ot')"
  by (induction xs arbitrary: ot) (auto split: option.splits)

lemma map_update_same:
  assumes "f y = f (xs ! i)"
  shows "map f (xs[i := y]) = map f xs"
proof (cases "i < length xs")
  case True
  with assms show ?thesis by (simp add: map_update list_update_same_conv)
next
  case False
  then have "length xs \<le> i" by simp
  then have "xs[i := y] = xs" by (rule list_update_beyond)
  then show ?thesis by simp
qed

lemma Action_exits [simp]:
  "Action (createExit t out g err) = Action t"
  "Action (callExit t out g err) = Action t"
  "Action (suicideExit t out g err) = Action t"
  by (simp_all add: createExit_def callExit_def suicideExit_def split: option.splits)

lemma map_Action_push: "map Action (Traces (pushTrace a ot)) = map Action (Traces ot) @ [a]"
  by (simp add: pushTrace_def Let_def map_update_same)

lemma CaptureExit_plain:
  "CaptureExit out g err ot = Some ot' \<Longrightarrow>
     traceStack ot \<noteq> [] \<and> traceStack ot' = butlast (traceStack ot) \<and>
     map Action (Traces ot') = map Action (Traces ot)"
  by (auto simp: CaptureExit_def Let_def map_update_same split: if_splits)

lemma CaptureEnd_plain:
  "CaptureEnd out g err ot = Some ot' \<Longrightarrow>
     traceStack ot \<noteq> [] \<and> traceStack ot' = butlast (traceStack ot) \<and>
     map Action (Traces ot') = map Action (Traces ot)"
  by (auto simp: CaptureEnd_def Let_def map_update_same split: if_splits)

lemma CaptureEnter_plain:
  "call_like ty \<Longrightarrow>
   CaptureEnter ty f t i g v ot = pushTrace (hd (enterAction (EvEnter ty f t i g v))) ot \<and>
   length (enterAction (EvEnter ty f t i g v)) = 1"
  by (auto simp: call_like_def CaptureEnter_def createEnter_def callEnter_def suicideEnter_def)

lemma step_plain:
  assumes "plain ev" and "step K ev ot = Some ot'"
  shows "map Action (Traces ot') = map Action (Traces ot) @ enterAction ev \<and>
         length (traceStack ot') + (if is_close ev then 1 else 0) =
         length (traceStack ot) + (if is_open ev then 1 else 0) \<and>
         length (enterAction ev) = (if is_open ev then 1 else 0)"
proof (cases ev)
  case (EvStart e f t c i g v)
  with assms(2) show ?thesis
    by (auto simp: CaptureStart_def createEnter_def callEnter_def map_Action_push)
next
  case (EvEnd out g e)
  with assms(2) CaptureEnd_plain [of out g e ot ot'] show ?thesis
    by (cases "traceStack ot" rule: rev_cases) auto
next
  case (EvEnter ty f t i g v)
  with assms have c: "call_like ty" and o: "ot' = CaptureEnter ty f t i g v ot" by auto
  from CaptureEnter_plain [OF c, of f t i g v ot]
  obtain a where "enterAction (EvEnter ty f t i g v) = [a]" "CaptureEnter ty f t i g v ot = pushTrace a ot"
    by (cases "enterAction (EvEnter ty f t i g v)") auto
  with o EvEnter show ?thesis by (simp add: map_Action_push)
next
  case (EvExit out g e)
  with assms(2) CaptureExit_plain [of out g e ot ot'] show ?thesis
    by (cases "traceStack ot" rule: rev_cases) auto
next
  case (EvState op g sc d e)
  with assms(1) show ?thesis by simp
next
  case EvFault
  with assms(1) show ?thesis by simp
qed

lemma run_plain:
  "list_all plain evs \<Longrightarrow> run K evs ot = Some ot' \<Longrightarrow>
   map Action (Traces ot') = map Action (Traces ot) @ discovered evs \<and>
   length (traceStack ot') + closes evs = length (traceStack ot) + opens evs \<and>
   length (discovered evs) = opens evs"
proof (induction evs arbitrary: ot)
  case Nil
  then show ?case by (simp add: discovered_def opens_def closes_def)
next
  case (Cons e es)
  then obtain ot1 where s: "step K e ot = Some ot1" and r: "run K es ot1 = Some ot'"
    by (auto split: option.splits)
  from Cons.prems(1) have p: "plain e" "list_all plain es" by simp_all
  from step_plain [OF p(1) s] Cons.IH [OF p(2) r] show ?case
    by (auto simp: discovered_def opens_def closes_def)
qed

lemma nested_plain: "nested d evs \<Longrightarrow> list_all plain evs"
  by (induction d evs rule: nested.induct) auto

lemma nested_run:
  "nested d evs \<Longrightarrow> length (traceStack ot) = d \<Longrightarrow>
   \<exists>ot'. run K evs ot = Some ot' \<and> traceStack ot' = []"
proof (induction d evs arbitrary: ot rule: nested.induct)
  case (1 d)
  then show ?case by simp
next
  case (2 d e f t c i g v es)
  then have "length (traceStack (CaptureStart e f t c i g v ot)) = 1"
    by (simp add: CaptureStart_def createEnter_def callEnter_def)
  with 2 show ?case by auto
next
  case (3 d ty f t i g v es)
  then have "length (traceStack (CaptureEnter ty f t i g v ot)) = Suc d"
    using CaptureEnter_plain [of ty f t i g v ot] by auto
  with 3 show ?case by auto
next
  case (4 d out g err es)
  then have ne: "traceStack ot \<noteq> []" by auto
  then obtain ot1 where s: "CaptureExit out g err ot = Some ot1"
    by (simp add: CaptureExit_def Let_def)
  with CaptureExit_plain [OF s] 4 show ?case by auto
next
  case (5 d out g err es)
  then have ne: "traceStack ot \<noteq> []" by auto
  then obtain ot1 where s: "CaptureEnd out g err ot = Some ot1"
    by (simp add: CaptureEnd_def Let_def)
  with CaptureEnd_plain [OF s] 5 show ?case
    by (cases "traceStack ot" rule: rev_cases) auto
next
  case (6 d op g sc depth err es)
  then show ?case by simp
next
  case (7 d es)
  then show ?case by simp
qed

text \<open>
  Claim C2. For a start event, further enter events and their matching exits in valid
  nesting order (the end event closing the root), the tracer runs through without a
  panic and ends with an empty trace stack and as many nodes in the output list as
  there were start and enter events, which is also the number of exit and end events.
  The node at position \<open>j\<close> of the output list carries the action of the \<open>j\<close>-th start
  or enter event; and after every prefix of the events the output list already holds
  exactly the nodes of the start and enter events of that prefix, so a node is appended
  when it is entered, not when it is closed.
\<close>

theorem C2_stack_balance:
  assumes "nested 0 evs"
  shows "\<exists>ot. run K evs NewOeTracer = Some ot \<and> traceStack ot = [] \<and>
           length (Traces ot) = opens evs \<and> closes evs = opens evs \<and>
           map Action (Traces ot) = discovered evs \<and>
           (\<forall>k \<le> length evs. \<exists>otk. run K (take k evs) NewOeTracer = Some otk \<and>
              map Action (Traces otk) = discovered (take k evs) \<and>
              length (Traces otk) = opens (take k evs) \<and>
              length (traceStack otk) + closes (take k evs) = opens (take k evs))"
proof -
  have e: "traceStack NewOeTracer = []" "Traces NewOeTracer = []"
    by (simp_all add: NewOeTracer_def)
  from nested_run [OF assms, of NewOeTracer K] e obtain ot
    where r: "run K evs NewOeTracer = Some ot" and s: "traceStack ot = []" by auto
  have p: "list_all plain evs" using assms by (rule nested_plain)
  from run_plain [OF p r] e s
  have a: "map Action (Traces ot) = discovered evs" "closes evs = opens evs"
    "length (discovered evs) = opens evs" by simp_all
  from a(1,3) have l: "length (Traces ot) = opens evs"
    by (metis length_map)
  have pre: "\<exists>otk. run K (take k evs) NewOeTracer = Some otk \<and>
              map Action (Traces otk) = discovered (take k evs) \<and>
              length (Traces otk) = opens (take k evs) \<and>
              length (traceStack otk) + closes (take k evs) = opens (take k evs)" for k
  proof -
    have "run K (take k evs @ drop k evs) NewOeTracer = Some ot" using r by simp
    then obtain otk where rk: "run K (take k evs) NewOeTracer = Some otk"
      unfolding run_append by (auto split: option.splits)
    have pk: "list_all plain (take k evs)"
      using p by (auto simp: list_all_iff dest: in_set_takeD)
    from run_plain [OF pk rk] e
    have b: "map Action (Traces otk) = discovered (take k evs)"
      "length (traceStack otk) + closes (take k evs) = opens (take k evs)"
      "length (discovered (take k evs)) = opens (take k evs)" by simp_all
    from b(1,3) have "length (Traces otk) = opens (take k evs)" by (metis length_map)
    with rk b show ?thesis by blast
  qed
  from r s l a pre show ?thesis by blast
qed

lemmas tracer_defs =
  NewOeTracer_def CaptureStart_def CaptureEnter_def CaptureExit_def CaptureEnd_def
  createEnter_def callEnter_def suicideEnter_def pushTrace_def
  createExit_def callExit_def suicideExit_def Let_def
  createAction_def callAction_def suicideAction_def CallType_defs

text \<open>
  The run of the call that creates a contract that destroys itself: three nodes with
  the addresses \<open>[]\<close>, \<open>[0]\<close> and \<open>[0, 0]\<close> and the child counts 1, 1 and 0.
\<close>

lemma run_callCreateSuicide:
  "run K callCreateSuicide NewOeTracer =
     Some \<lparr>traceStack = [],
           Traces =
            [\<lparr>Action = callAction CallTypeCall 1 2 [] 100000 (Some 0),
              Result = Some \<lparr>GasUsed = 30000, Output = [], Code = [], ResultAddress = None\<rparr>,
              Error = [], TraceAddress = [], Subtraces = 1\<rparr>,
             \<lparr>Action = createAction 2 3 [0x60] 50000 (Some 0),
              Result = Some \<lparr>GasUsed = 1000, Output = [], Code = [0x60], ResultAddress = Some 3\<rparr>,
              Error = [], TraceAddress = [0], Subtraces = 1\<rparr>,
             \<lparr>Action = suicideAction 3 1 (Some 7),
              Result = None, Error = [], TraceAddress = [0, 0], Subtraces = 0\<rparr>],
           env = Some evm0\<rparr>"
  by (simp add: callCreateSuicide_def tracer_defs)

theorem C2_stack_balance_witness:
  "nested 0 callCreateSuicide \<and>
   (\<exists>ot. run gethConsts callCreateSuicide NewOeTracer = Some ot \<and> traceStack ot = [] \<and>
      length (Traces ot) = 3 \<and> closes callCreateSuicide = 3 \<and>
      map Action (Traces ot) = discovered callCreateSuicide)"
proof -
  have n: "nested 0 callCreateSuicide"
    by (simp add: callCreateSuicide_def call_like_def)
  have o: "opens callCreateSuicide = 3"
    by (simp add: callCreateSuicide_def opens_def)
  from C2_stack_balance [OF n, of gethConsts] n o show ?thesis by auto
qed

subsection \<open>Result and error of a closed node\<close>

lemma reachable_inv:
  assumes "run K evs NewOeTracer = Some ot"
  shows "inv ot"
  using prims_inv_frame [OF run_prims [OF assms, of False] inv_NewOeTracer] by simp

lemma closed_ok_New: "closed_ok NewOeTracer"
  by (simp add: closed_ok_def NewOeTracer_def)

lemma prim_open_none:
  assumes "prim S ot ot'" and "inv ot" and "open_none ot"
  shows "open_none ot'"
  using assms(1)
proof (cases rule: prim.cases)
  case (prim_push a)
  have "Result (Traces ot' ! i) = None" if "i \<in> set (traceStack ot')" for i
  proof (cases "i = length (Traces ot)")
    case True
    then show ?thesis using prim_push by (simp add: pushTrace_new)
  next
    case False
    with that prim_push have m: "i \<in> set (traceStack ot)" by simp
    with assms(2) have "i < length (Traces ot)" by (simp add: inv_def wf_stack_def)
    then show ?thesis using prim_push assms(3) m by (simp add: pushTrace_old open_none_def)
  qed
  then show ?thesis by (simp add: open_none_def)
next
  case (prim_env e)
  then show ?thesis using assms(3) by (simp add: open_none_def)
next
  case (prim_pop err n')
  have d: "distinct (traceStack ot)" using assms(2) by (simp add: inv_def wf_stack_def)
  have "Result (Traces ot' ! i) = None" if "i \<in> set (traceStack ot')" for i
  proof -
    from that prim_pop(1) have b: "i \<in> set (butlast (traceStack ot))" by simp
    then have m: "i \<in> set (traceStack ot)" by (rule in_set_butlastD)
    from b last_notin_butlast [OF d prim_pop(2)] have "i \<noteq> last (traceStack ot)" by auto
    then show ?thesis using prim_pop(1) assms(3) m by (simp add: open_none_def)
  qed
  then show ?thesis by (simp add: open_none_def)
next
  case prim_revert
  from stateRevert_SomeD [OF prim_revert] assms(2,3) show ?thesis
    by (auto simp: open_none_def inv_def wf_stack_def nth_update_if)
qed

lemma prims_open_none:
  "(prim S)\<^sup>*\<^sup>* ot ot' \<Longrightarrow> inv ot \<Longrightarrow> open_none ot \<Longrightarrow> open_none ot'"
proof (induction rule: rtranclp_induct)
  case base
  then show ?case by simp
next
  case (step y z)
  moreover from step have "inv y" using prims_inv_frame by blast
  ultimately show ?case using prim_open_none by blast
qed

lemma reachable_open_none:
  assumes "run K evs NewOeTracer = Some ot"
  shows "open_none ot"
proof -
  have "open_none NewOeTracer" by (simp add: open_none_def NewOeTracer_def)
  with run_prims [OF assms, of False] inv_NewOeTracer show ?thesis
    using prims_open_none by blast
qed

lemma suicide_exit_neither:
  assumes "run K evs NewOeTracer = Some ot" and "traceStack ot \<noteq> []"
    and "CallType (Action (Traces ot ! last (traceStack ot))) = CallTypeSuicide"
    and "Error (Traces ot ! last (traceStack ot)) = []"
  shows "\<exists>ot'. CaptureExit out g None ot = Some ot' \<and>
           last (traceStack ot) \<notin> set (traceStack ot') \<and>
           Result (Traces ot' ! last (traceStack ot)) = None \<and>
           Error (Traces ot' ! last (traceStack ot)) = []"
proof -
  let ?top = "last (traceStack ot)"
  have i: "inv ot" using assms(1) by (rule reachable_inv)
  with assms(2) have t: "?top < length (Traces ot)" "distinct (traceStack ot)"
    by (simp_all add: inv_def wf_stack_def)
  have "open_none ot" using assms(1) by (rule reachable_open_none)
  with assms(2) have r: "Result (Traces ot ! ?top) = None" by (simp add: open_none_def)
  have s: "suicideExit (Traces ot ! ?top) out g None = Traces ot ! ?top"
    using assms(4) by (simp add: suicideExit_def)
  have "CaptureExit out g None ot = Some (ot\<lparr>traceStack := butlast (traceStack ot)\<rparr>)"
    using assms(2,3) s by (simp add: CaptureExit_def Let_def CallType_defs)
  moreover have "?top \<notin> set (butlast (traceStack ot))"
    using t(2) assms(2) by (rule last_notin_butlast)
  ultimately show ?thesis using r assms(4) by simp
qed

text \<open>
  Claim C3, as stated, fails: in the run of the call that creates a contract that
  destroys itself, the node of the self-destruct (index 2) is closed by its exit and
  has neither a result nor an error.
\<close>

theorem C3_counterexample:
  "run gethConsts callCreateSuicide NewOeTracer \<noteq> None \<and>
   2 < length (Traces (the (run gethConsts callCreateSuicide NewOeTracer))) \<and>
   2 \<notin> set (traceStack (the (run gethConsts callCreateSuicide NewOeTracer))) \<and>
   CallType (Action (Traces (the (run gethConsts callCreateSuicide NewOeTracer)) ! 2)) = CallTypeSuicide \<and>
   \<not> exactly_one (Traces (the (run gethConsts callCreateSuicide NewOeTracer)) ! 2)"
  by (simp add: run_callCreateSuicide exactly_one_def suicideAction_def)

text \<open>
  Claim C3, amended. In every state the tracer reaches from \<open>NewOeTracer\<close>, by events
  whose errors have a non-empty message, a node that is closed (it is in the output
  list and no longer on the trace stack) never has both a result and an error, and a
  closed node of a create or of the call family has exactly one of them. A
  self-destruct node that is innermost, has no error yet and exits without an error is
  closed with neither.
\<close>

theorem C3_closed_result_error:
  assumes "run K evs NewOeTracer = Some ot"
    and "list_all (strict_ev K) evs"
  shows "(\<forall>i < length (Traces ot). i \<notin> set (traceStack ot) \<longrightarrow>
           \<not> (Result (Traces ot ! i) \<noteq> None \<and> Error (Traces ot ! i) \<noteq> []) \<and>
           (callish (CallType (Action (Traces ot ! i))) \<longrightarrow> exactly_one (Traces ot ! i))) \<and>
         (traceStack ot \<noteq> [] \<and>
          CallType (Action (Traces ot ! last (traceStack ot))) = CallTypeSuicide \<and>
          Error (Traces ot ! last (traceStack ot)) = [] \<longrightarrow>
            (\<forall>out g. \<exists>ot'. CaptureExit out g None ot = Some ot' \<and>
               last (traceStack ot) \<notin> set (traceStack ot') \<and>
               Result (Traces ot' ! last (traceStack ot)) = None \<and>
               Error (Traces ot' ! last (traceStack ot)) = []))"
proof -
  have "(prim True)\<^sup>*\<^sup>* NewOeTracer ot"
    using run_prims [OF assms(1), of True] assms(2) by simp
  then have "closed_ok ot"
    using inv_NewOeTracer closed_ok_New by (rule prims_closed_ok)
  then have a: "\<forall>i < length (Traces ot). i \<notin> set (traceStack ot) \<longrightarrow>
           \<not> (Result (Traces ot ! i) \<noteq> None \<and> Error (Traces ot ! i) \<noteq> []) \<and>
           (callish (CallType (Action (Traces ot ! i))) \<longrightarrow> exactly_one (Traces ot ! i))"
    by (auto simp: closed_ok_def set_ok_def exactly_one_def)
  from suicide_exit_neither [OF assms(1)] a show ?thesis by blast
qed

theorem C3_closed_result_error_witness:
  "run gethConsts callCreateSuicide NewOeTracer \<noteq> None \<and>
   list_all (strict_ev gethConsts) callCreateSuicide \<and>
   1 < length (Traces (the (run gethConsts callCreateSuicide NewOeTracer))) \<and>
   1 \<notin> set (traceStack (the (run gethConsts callCreateSuicide NewOeTracer))) \<and>
   callish (CallType (Action (Traces (the (run gethConsts callCreateSuicide NewOeTracer)) ! 1))) \<and>
   exactly_one (Traces (the (run gethConsts callCreateSuicide NewOeTracer)) ! 1)"
proof -
  define ot where "ot = the (run gethConsts callCreateSuicide NewOeTracer)"
  have r: "run gethConsts callCreateSuicide NewOeTracer = Some ot"
    unfolding ot_def by (simp add: run_callCreateSuicide)
  have s: "list_all (strict_ev gethConsts) callCreateSuicide"
    by (simp add: callCreateSuicide_def)
  have l: "1 < length (Traces ot)" "1 \<notin> set (traceStack ot)"
    unfolding ot_def by (simp_all add: run_callCreateSuicide)
  have c: "callish (CallType (Action (Traces ot ! 1)))"
    unfolding ot_def by (simp add: run_callCreateSuicide callish_def createAction_def)
  have ne: "run gethConsts callCreateSuicide NewOeTracer \<noteq> None"
    by (simp add: run_callCreateSuicide)
  from C3_closed_result_error [OF r s] l c have "exactly_one (Traces ot ! 1)" by blast
  with ne s l c show ?thesis unfolding ot_def by blast
qed

subsection \<open>Revert\<close>

text \<open>
  Claim C4. In a state the tracer has reached, with \<open>X\<close> the innermost open node, a
  \<^verbatim>\<open>REVERT\<close> opcode sets the error of \<open>X\<close> to \<^verbatim>\<open>execution reverted\<close> and changes no other
  node. Whatever events follow, the error of \<open>X\<close> stays that string and, once \<open>X\<close> is
  closed, \<open>X\<close> has no result, whatever output and error its exit carried; and every
  node that was already closed when the opcode was seen, the closed descendants of
  \<open>X\<close> among them, stays as it was, result included.
\<close>

theorem C4_revert:
  assumes "run K pre NewOeTracer = Some ot"
    and "traceStack ot \<noteq> []"
  shows "\<exists>ot1. CaptureState K REVERT gas scope depth err ot = Some ot1 \<and>
           traceStack ot1 = traceStack ot \<and>
           Error (Traces ot1 ! last (traceStack ot)) = ''execution reverted'' \<and>
           (\<forall>i < length (Traces ot). i \<noteq> last (traceStack ot) \<longrightarrow> Traces ot1 ! i = Traces ot ! i) \<and>
           (\<forall>evs ot2. run K evs ot1 = Some ot2 \<longrightarrow>
              Error (Traces ot2 ! last (traceStack ot)) = ''execution reverted'' \<and>
              (last (traceStack ot) \<notin> set (traceStack ot2) \<longrightarrow>
                 Result (Traces ot2 ! last (traceStack ot)) = None) \<and>
              (\<forall>i < length (Traces ot). i \<notin> set (traceStack ot) \<longrightarrow>
                 Traces ot2 ! i = Traces ot ! i))"
proof -
  let ?X = "last (traceStack ot)"
  let ?ot1 = "ot\<lparr>Traces := (Traces ot)[?X := (Traces ot ! ?X)\<lparr>Error := ''execution reverted''\<rparr>]\<rparr>"
  have i: "inv ot" using assms(1) by (rule reachable_inv)
  from i assms(2) have X: "?X < length (Traces ot)" "?X \<in> set (traceStack ot)"
    by (simp_all add: inv_def wf_stack_def)
  have c: "CaptureState K REVERT gas scope depth err ot = Some ?ot1"
    using assms(2) by (simp add: CaptureState_def stateRevert_def Let_def)
  have r1: "run K (pre @ [EvState REVERT gas scope depth err]) NewOeTracer = Some ?ot1"
    using assms(1) c by (simp add: run_append)
  have i1: "inv ?ot1" using r1 by (rule reachable_inv)
  have rv: "reverted_at ?X ?ot1"
    using X by (simp add: reverted_at_def)
  have later: "Error (Traces ot2 ! ?X) = ''execution reverted'' \<and>
              (?X \<notin> set (traceStack ot2) \<longrightarrow> Result (Traces ot2 ! ?X) = None) \<and>
              (\<forall>i < length (Traces ot). i \<notin> set (traceStack ot) \<longrightarrow>
                 Traces ot2 ! i = Traces ot ! i)"
    if r2: "run K evs ot1' = Some ot2" and eq: "ot1' = ?ot1" for evs ot2 ot1'
  proof -
    have p: "(prim False)\<^sup>*\<^sup>* ?ot1 ot2" using run_prims [OF r2, of False] eq by simp
    have "reverted_at ?X ot2"
      using p i1 _ rv by (rule prims_reverted) (use X in simp)
    moreover have "frame ?ot1 ot2" using prims_inv_frame [OF p i1] by simp
    then have "\<forall>i < length (Traces ot). i \<notin> set (traceStack ot) \<longrightarrow>
                 Traces ot2 ! i = Traces ot ! i"
      using X by (auto simp: frame_def nth_update_if)
    ultimately show ?thesis by (simp add: reverted_at_def)
  qed
  have "traceStack ?ot1 = traceStack ot \<and>
           Error (Traces ?ot1 ! ?X) = ''execution reverted'' \<and>
           (\<forall>i < length (Traces ot). i \<noteq> ?X \<longrightarrow> Traces ?ot1 ! i = Traces ot ! i)"
    using X by simp
  with c later show ?thesis by blast
qed

lemma run_revertPre:
  "run K revertPre NewOeTracer =
     Some \<lparr>traceStack = [0],
           Traces =
            [\<lparr>Action = callAction CallTypeCall 1 2 [] 100000 (Some 0),
              Result = None, Error = [], TraceAddress = [], Subtraces = 1\<rparr>,
             \<lparr>Action = callAction CallTypeCall 2 3 [] 5000 (Some 0),
              Result = Some \<lparr>GasUsed = 700, Output = [0xAA], Code = [], ResultAddress = None\<rparr>,
              Error = [], TraceAddress = [0], Subtraces = 0\<rparr>],
           env = Some evm0\<rparr>"
  by (simp add: revertPre_def tracer_defs)

lemma run_revertAll:
  "run K (revertPre @ [EvState REVERT 0 scope0 1 None, EvEnd [0xBB] 900 None]) NewOeTracer =
     Some \<lparr>traceStack = [],
           Traces =
            [\<lparr>Action = callAction CallTypeCall 1 2 [] 100000 (Some 0),
              Result = None, Error = ''execution reverted'', TraceAddress = [], Subtraces = 1\<rparr>,
             \<lparr>Action = callAction CallTypeCall 2 3 [] 5000 (Some 0),
              Result = Some \<lparr>GasUsed = 700, Output = [0xAA], Code = [], ResultAddress = None\<rparr>,
              Error = [], TraceAddress = [0], Subtraces = 0\<rparr>],
           env = Some evm0\<rparr>"
  unfolding run_append run_revertPre
  by (simp add: CaptureState_def stateRevert_def tracer_defs)

theorem C4_revert_witness:
  "run gethConsts revertPre NewOeTracer \<noteq> None \<and>
   traceStack (the (run gethConsts revertPre NewOeTracer)) = [0] \<and>
   Result (Traces (the (run gethConsts revertPre NewOeTracer)) ! 1) \<noteq> None \<and>
   Error (Traces (the (run gethConsts
      (revertPre @ [EvState REVERT 0 scope0 1 None, EvEnd [0xBB] 900 None]) NewOeTracer)) ! 0)
     = ''execution reverted'' \<and>
   Result (Traces (the (run gethConsts
      (revertPre @ [EvState REVERT 0 scope0 1 None, EvEnd [0xBB] 900 None]) NewOeTracer)) ! 0)
     = None \<and>
   Traces (the (run gethConsts
      (revertPre @ [EvState REVERT 0 scope0 1 None, EvEnd [0xBB] 900 None]) NewOeTracer)) ! 1
     = Traces (the (run gethConsts revertPre NewOeTracer)) ! 1"
proof -
  define ot where "ot = the (run gethConsts revertPre NewOeTracer)"
  define ot2 where "ot2 = the (run gethConsts
      (revertPre @ [EvState REVERT 0 scope0 1 None, EvEnd [0xBB] 900 None]) NewOeTracer)"
  have r: "run gethConsts revertPre NewOeTracer = Some ot"
    unfolding ot_def by (simp add: run_revertPre)
  have full: "run gethConsts
      (revertPre @ [EvState REVERT 0 scope0 1 None, EvEnd [0xBB] 900 None]) NewOeTracer = Some ot2"
    unfolding ot2_def by (simp only: run_revertAll option.sel)
  have s: "traceStack ot = [0]" "length (Traces ot) = 2" "Result (Traces ot ! 1) \<noteq> None"
    unfolding ot_def by (simp_all add: run_revertPre)
  then have ne: "traceStack ot \<noteq> []" by simp
  from C4_revert [OF r ne, of 0 scope0 1 None] obtain ot1 where
    c: "CaptureState gethConsts REVERT 0 scope0 1 None ot = Some ot1" and
    l: "\<forall>evs ot2. run gethConsts evs ot1 = Some ot2 \<longrightarrow>
              Error (Traces ot2 ! last (traceStack ot)) = ''execution reverted'' \<and>
              (last (traceStack ot) \<notin> set (traceStack ot2) \<longrightarrow>
                 Result (Traces ot2 ! last (traceStack ot)) = None) \<and>
              (\<forall>i < length (Traces ot). i \<notin> set (traceStack ot) \<longrightarrow>
                 Traces ot2 ! i = Traces ot ! i)" by blast
  have r2: "run gethConsts [EvEnd [0xBB] 900 None] ot1 = Some ot2"
    using full unfolding run_append r by (simp add: c)
  have st2: "traceStack ot2 = []" unfolding ot2_def by (simp add: run_revertAll)
  from l r2 have
    "Error (Traces ot2 ! last (traceStack ot)) = ''execution reverted'' \<and>
              (last (traceStack ot) \<notin> set (traceStack ot2) \<longrightarrow>
                 Result (Traces ot2 ! last (traceStack ot)) = None) \<and>
              (\<forall>i < length (Traces ot). i \<notin> set (traceStack ot) \<longrightarrow>
                 Traces ot2 ! i = Traces ot ! i)" by blast
  then have "Error (Traces ot2 ! 0) = ''execution reverted''" "Result (Traces ot2 ! 0) = None"
    "Traces ot2 ! 1 = Traces ot ! 1"
    unfolding s st2 by simp_all
  moreover have "run gethConsts revertPre NewOeTracer \<noteq> None" using r by simp
  ultimately show ?thesis using s unfolding ot_def ot2_def by blast
qed

subsection \<open>The synthesized node of a failed pre-check\<close>

lemma exit_after_push_eq:
  assumes "callish (CallType a)"
  shows "CaptureExit out g (Some m) (pushTrace a ot) =
     Some ((pushTrace a ot)\<lparr>traceStack := traceStack ot,
        Traces := (Traces (pushTrace a ot))[length (Traces ot) :=
           (Traces (pushTrace a ot) ! length (Traces ot))\<lparr>Error := m, Result := None\<rparr>]\<rparr>)"
proof -
  let ?p = "pushTrace a ot"
  let ?n = "length (Traces ot)"
  let ?new = "Traces ?p ! ?n"
  have st: "traceStack ?p \<noteq> []" "last (traceStack ?p) = ?n" "butlast (traceStack ?p) = traceStack ot"
    by simp_all
  have new: "Action ?new = a" "Error ?new = []"
    by (simp_all add: pushTrace_new)
  have ex: "createExit ?new out g (Some m) = ?new\<lparr>Error := m, Result := None\<rparr>"
    "callExit ?new out g (Some m) = ?new\<lparr>Error := m, Result := None\<rparr>"
    by (simp_all add: createExit_def callExit_def new)
  show ?thesis
  proof (cases "CallType a = CallTypeCreate")
    case True
    then show ?thesis
      unfolding CaptureExit_def Let_def st by (simp add: new ex)
  next
    case False
    with assms have "CallType a = CallTypeCall \<or> CallType a = CallTypeCallCode \<or>
       CallType a = CallTypeDelegateCall \<or> CallType a = CallTypeStaticCall"
      by (simp add: callish_def)
    with False show ?thesis
      unfolding CaptureExit_def Let_def st by (simp add: new ex)
  qed
qed

lemma synthesized_push_exit:
  "synthesized ot m ((pushTrace a ot)\<lparr>traceStack := traceStack ot,
        Traces := (Traces (pushTrace a ot))[length (Traces ot) :=
           (Traces (pushTrace a ot) ! length (Traces ot))\<lparr>Error := m, Result := None\<rparr>]\<rparr>)"
  by (simp add: synthesized_def nth_update_if pushTrace_old pushTrace_new)

lemma Action_push_exit:
  "Action (Traces ((pushTrace a ot)\<lparr>traceStack := traceStack ot,
        Traces := (Traces (pushTrace a ot))[length (Traces ot) :=
           (Traces (pushTrace a ot) ! length (Traces ot))\<lparr>Error := m, Result := None\<rparr>]\<rparr>)
      ! length (Traces ot)) = a"
  by (simp add: pushTrace_new)

text \<open>
  Claim C6. When a pre-check of a call-like opcode fails with the message \<open>m\<close>, the
  handler of the failure is one \<^verbatim>\<open>CaptureEnter\<close> followed at once by one
  \<^verbatim>\<open>CaptureExit\<close> that carries no output, zero gas used and the error. It never
  panics, and it leaves exactly one more node in the output list: a create node for
  \<^verbatim>\<open>CREATE\<close> and \<^verbatim>\<open>CREATE2\<close>, a node of the call family for the four call opcodes,
  whose error is \<open>m\<close> and whose result is absent, already closed (the trace stack is
  as it was before).
\<close>

theorem C6_preflight_synthesis:
  "(op = CREATE \<or> op = CREATE2 \<longrightarrow>
      createPreProcessFailed op scope gas val (Some m) ot =
        CaptureExit [] 0 (Some m)
          (CaptureEnter op (ContractAddress scope) 0
             (GetCopy scope (int64_of_Uint64 (Back scope 1)) (int64_of_Uint64 (Back scope 2)))
             gas val ot) \<and>
      (\<exists>ot'. createPreProcessFailed op scope gas val (Some m) ot = Some ot' \<and>
             synthesized ot m ot' \<and>
             CallType (Action (Traces ot' ! length (Traces ot))) = CallTypeCreate)) \<and>
   (op = CALL \<or> op = CALLCODE \<or> op = DELEGATECALL \<or> op = STATICCALL \<longrightarrow>
      (\<exists>input. callPreProcessFailed op scope gas val (Some m) ot =
         CaptureExit [] 0 (Some m)
           (CaptureEnter op (ContractAddress scope) (ucast (Back scope 1)) input gas val ot)) \<and>
      (\<exists>ot'. callPreProcessFailed op scope gas val (Some m) ot = Some ot' \<and>
             synthesized ot m ot' \<and>
             callish (CallType (Action (Traces ot' ! length (Traces ot))))))"
proof (intro conjI impI)
  assume "op = CREATE \<or> op = CREATE2"
  then have e: "CaptureEnter op f t i gas val ot = pushTrace (createAction f t i gas val) ot" for f t i
    by (auto simp: CaptureEnter_def createEnter_def)
  show "createPreProcessFailed op scope gas val (Some m) ot =
        CaptureExit [] 0 (Some m)
          (CaptureEnter op (ContractAddress scope) 0
             (GetCopy scope (int64_of_Uint64 (Back scope 1)) (int64_of_Uint64 (Back scope 2)))
             gas val ot)"
    by (simp add: createPreProcessFailed_def Let_def)
  let ?a = "createAction (ContractAddress scope) 0
     (GetCopy scope (int64_of_Uint64 (Back scope 1)) (int64_of_Uint64 (Back scope 2))) gas val"
  let ?ot' = "(pushTrace ?a ot)\<lparr>traceStack := traceStack ot,
        Traces := (Traces (pushTrace ?a ot))[length (Traces ot) :=
           (Traces (pushTrace ?a ot) ! length (Traces ot))\<lparr>Error := m, Result := None\<rparr>]\<rparr>"
  have c: "callish (CallType ?a)" "CallType ?a = CallTypeCreate"
    by (simp_all add: callish_def createAction_def)
  have x: "createPreProcessFailed op scope gas val (Some m) ot = Some ?ot'"
    unfolding createPreProcessFailed_def Let_def e by (rule exit_after_push_eq [OF c(1)])
  have s: "synthesized ot m ?ot'" by (rule synthesized_push_exit)
  have "Action (Traces ?ot' ! length (Traces ot)) = ?a" by (rule Action_push_exit)
  then have k: "CallType (Action (Traces ?ot' ! length (Traces ot))) = CallTypeCreate"
    using c(2) by (simp only:)
  from x s k show "\<exists>ot'. createPreProcessFailed op scope gas val (Some m) ot = Some ot' \<and>
             synthesized ot m ot' \<and>
             CallType (Action (Traces ot' ! length (Traces ot))) = CallTypeCreate" by blast
next
  assume o: "op = CALL \<or> op = CALLCODE \<or> op = DELEGATECALL \<or> op = STATICCALL"
  show "\<exists>input. callPreProcessFailed op scope gas val (Some m) ot =
         CaptureExit [] 0 (Some m)
           (CaptureEnter op (ContractAddress scope) (ucast (Back scope 1)) input gas val ot)"
    unfolding callPreProcessFailed_def Let_def by (rule exI) (rule refl)
  define ct where "ct = (if op = CALL then CallTypeCall else if op = CALLCODE then CallTypeCallCode
     else if op = DELEGATECALL then CallTypeDelegateCall else CallTypeStaticCall)"
  have ct: "callish ct" by (simp add: ct_def callish_def)
  have e: "CaptureEnter op f t i gas val ot = pushTrace (callAction ct f t i gas val) ot" for f t i
    using o by (auto simp: CaptureEnter_def callEnter_def ct_def)
  define input where "input = (if op = CALL \<or> op = CALLCODE
                  then GetCopy scope (int64_of_Uint64 (Back scope 3)) (int64_of_Uint64 (Back scope 4))
                  else GetCopy scope (int64_of_Uint64 (Back scope 2)) (int64_of_Uint64 (Back scope 3)))"
  let ?a = "callAction ct (ContractAddress scope) (ucast (Back scope 1)) input gas val"
  let ?ot' = "(pushTrace ?a ot)\<lparr>traceStack := traceStack ot,
        Traces := (Traces (pushTrace ?a ot))[length (Traces ot) :=
           (Traces (pushTrace ?a ot) ! length (Traces ot))\<lparr>Error := m, Result := None\<rparr>]\<rparr>"
  have c: "callish (CallType ?a)"
    using ct by (simp add: callAction_def)
  have x: "callPreProcessFailed op scope gas val (Some m) ot = Some ?ot'"
    unfolding callPreProcessFailed_def Let_def e input_def [symmetric]
    by (rule exit_after_push_eq [OF c])
  have s: "synthesized ot m ?ot'" by (rule synthesized_push_exit)
  have "Action (Traces ?ot' ! length (Traces ot)) = ?a" by (rule Action_push_exit)
  then have k: "callish (CallType (Action (Traces ?ot' ! length (Traces ot))))"
    using c by (simp only:)
  from x s k show "\<exists>ot'. callPreProcessFailed op scope gas val (Some m) ot = Some ot' \<and>
             synthesized ot m ot' \<and>
             callish (CallType (Action (Traces ot' ! length (Traces ot))))" by blast
qed


lemma started_eq:
  "started = \<lparr>traceStack = [0],
       Traces = [\<lparr>Action = callAction CallTypeCall 1 2 [] 100000 (Some 0),
                  Result = None, Error = [], TraceAddress = [], Subtraces = 0\<rparr>],
       env = Some evm0\<rparr>"
  by (simp add: started_def tracer_defs)

text \<open>A \<^verbatim>\<open>CREATE2\<close> seen at depth 1025, above the limit of 1024.\<close>

lemma depth_CREATE2:
  "CaptureState gethConsts CREATE2 0 scope0 1025 None started =
     createPreProcessFailed CREATE2 scope0 0 (Some 0) (Some ''max call depth exceeded'') started"
  by (simp add: CaptureState_def stateCreate_def checkDepthAboveLitmit_def gethConsts_def
      scope0_def Let_def)

theorem C6_preflight_synthesis_witness:
  "\<exists>ot'. CaptureState gethConsts CREATE2 0 scope0 1025 None started = Some ot' \<and>
     traceStack ot' = traceStack started \<and> length (Traces ot') = 2 \<and>
     CallType (Action (Traces ot' ! 1)) = CallTypeCreate \<and>
     Error (Traces ot' ! 1) = ''max call depth exceeded'' \<and>
     Result (Traces ot' ! 1) = None \<and>
     TraceAddress (Traces ot' ! 1) = [0] \<and>
     Subtraces (Traces ot' ! 0) = 1"
proof -
  have l: "length (Traces started) = 1" "traceStack started = [0]"
    "TraceAddress (Traces started ! 0) = []" "Subtraces (Traces started ! 0) = 0"
    by (simp_all add: started_eq)
  from C6_preflight_synthesis [of CREATE2 scope0 0 "Some 0" "''max call depth exceeded''" started]
  obtain ot' where
    x: "createPreProcessFailed CREATE2 scope0 0 (Some 0) (Some ''max call depth exceeded'') started = Some ot'"
    and s: "synthesized started ''max call depth exceeded'' ot'"
    and k: "CallType (Action (Traces ot' ! length (Traces started))) = CallTypeCreate"
    by blast
  from s have "traceStack ot' = traceStack started \<and> length (Traces ot') = 2 \<and>
     Error (Traces ot' ! 1) = ''max call depth exceeded'' \<and>
     Result (Traces ot' ! 1) = None \<and>
     TraceAddress (Traces ot' ! 1) = [0] \<and>
     Subtraces (Traces ot' ! 0) = 1"
    unfolding synthesized_def using l by simp
  with x k l(1) show ?thesis unfolding depth_CREATE2 by auto
qed

subsection \<open>The order of the pre-checks\<close>

text \<open>
  The order of the pre-checks. For the create opcodes and for \<^verbatim>\<open>DELEGATECALL\<close> and
  \<^verbatim>\<open>STATICCALL\<close> the error handed to \<^verbatim>\<open>CaptureState\<close> is tested first and decides
  alone. For \<^verbatim>\<open>CALL\<close> and \<^verbatim>\<open>CALLCODE\<close> the depth check comes first and its result
  overwrites that error, which is then never reported.
\<close>

lemma stateCall_ignores_err:
  "stateCall K op gas scope depth err ot = stateCall K op gas scope depth None ot"
  by (simp add: stateCall_def)

lemma CaptureState_CALL_depth_first:
  "CallCreateDepth K < depth \<Longrightarrow> op = CALL \<or> op = CALLCODE \<Longrightarrow>
   CaptureState K op gas scope depth err ot =
     callPreProcessFailed op scope gas (Some (uint (Back scope 2))) (Some (ErrDepth K)) ot"
  by (auto simp: CaptureState_def stateCall_def checkDepthAboveLitmit_def Let_def)

lemma CaptureState_CREATE_err_first:
  "op = CREATE \<or> op = CREATE2 \<Longrightarrow>
   CaptureState K op gas scope depth (Some m) ot =
     createPreProcessFailed op scope gas (Some (uint (Back scope 0))) (Some m) ot"
  by (auto simp: CaptureState_def stateCreate_def Let_def)

lemma CaptureState_DELEGATE_err_first:
  "op = DELEGATECALL \<or> op = STATICCALL \<Longrightarrow>
   CaptureState K op gas scope depth (Some m) ot =
     callPreProcessFailed op scope gas None (Some m) ot"
  by (auto simp: CaptureState_def stateDelegate_def Let_def)

text \<open>
  Claim C5 at a failing input: \<^verbatim>\<open>CaptureState\<close> is handed the error
  \<^verbatim>\<open>out of gas\<close>. For \<^verbatim>\<open>CALL\<close> within the depth limit no node is synthesized and the
  tracer is unchanged; for \<^verbatim>\<open>CALL\<close> above the limit the node carries the depth error,
  not the error handed in. For \<^verbatim>\<open>CREATE\<close> and \<^verbatim>\<open>STATICCALL\<close> at the same inputs the
  node carries the error handed in, as the claim says.
\<close>

theorem C5_call_drops_upstream_error:
  "CaptureState gethConsts CALL 0 scope0 1 (Some ''out of gas'') started = Some started \<and>
   map Error (Traces (the (CaptureState gethConsts CALL 0 scope0 1025 (Some ''out of gas'') started)))
     = ['''', ''max call depth exceeded''] \<and>
   map Error (Traces (the (CaptureState gethConsts CREATE 0 scope0 1025 (Some ''out of gas'') started)))
     = ['''', ''out of gas''] \<and>
   map Error (Traces (the (CaptureState gethConsts CREATE 0 scope0 1 (Some ''out of gas'') started)))
     = ['''', ''out of gas''] \<and>
   map Error (Traces (the (CaptureState gethConsts STATICCALL 0 scope0 1025 (Some ''out of gas'') started)))
     = ['''', ''out of gas'']"
  by (simp add: CaptureState_def stateCall_def stateCreate_def stateDelegate_def
      checkDepthAboveLitmit_def checkCanTransfer_def
      createPreProcessFailed_def callPreProcessFailed_def gethConsts_def scope0_def
      started_eq tracer_defs)

subsection \<open>Trace addresses\<close>

text \<open>
  The tracer that copies the parent's address does what claim C1 says, in every state
  it reaches: the node of an enter event gets the address of the innermost open node
  with that node's child counter appended (the empty address when no node is open), the
  counter is incremented and no other node changes; and no later event changes the
  address of that node or of any earlier one.
\<close>

lemma copying_tracer_addresses:
  assumes "run K pre NewOeTracer = Some ot" and "call_like ty"
  shows "length (Traces (CaptureEnter ty f t i g v ot)) = Suc (length (Traces ot)) \<and>
     TraceAddress (Traces (CaptureEnter ty f t i g v ot) ! length (Traces ot)) =
       (if traceStack ot = [] then []
        else TraceAddress (Traces ot ! last (traceStack ot)) @
             [Subtraces (Traces ot ! last (traceStack ot))]) \<and>
     (\<forall>j < length (Traces ot).
        Traces (CaptureEnter ty f t i g v ot) ! j =
          (if traceStack ot \<noteq> [] \<and> j = last (traceStack ot)
           then (Traces ot ! j)\<lparr>Subtraces := Subtraces (Traces ot ! j) + 1\<rparr>
           else Traces ot ! j)) \<and>
     (\<forall>evs ot2. run K evs (CaptureEnter ty f t i g v ot) = Some ot2 \<longrightarrow>
        (\<forall>j \<le> length (Traces ot).
           TraceAddress (Traces ot2 ! j) =
           TraceAddress (Traces (CaptureEnter ty f t i g v ot) ! j)))"
proof -
  let ?ot1 = "CaptureEnter ty f t i g v ot"
  from CaptureEnter_plain [OF assms(2), of f t i g v ot]
  obtain a where e: "?ot1 = pushTrace a ot" by blast
  have r1: "run K (pre @ [EvEnter ty f t i g v]) NewOeTracer = Some ?ot1"
    using assms(1) by (simp add: run_append)
  have i1: "inv ?ot1" using r1 by (rule reachable_inv)
  have later: "\<forall>j \<le> length (Traces ot).
           TraceAddress (Traces ot2 ! j) = TraceAddress (Traces ?ot1 ! j)"
    if "run K evs ?ot1 = Some ot2" for evs ot2
  proof -
    have "(prim False)\<^sup>*\<^sup>* ?ot1 ot2" using run_prims [OF that, of False] by simp
    then have "frame ?ot1 ot2" using prims_inv_frame i1 by blast
    then show ?thesis unfolding frame_def e by (simp add: less_Suc_eq_le)
  qed
  show ?thesis
    using later unfolding e by (simp add: pushTrace_new pushTrace_old)
qed

lemmas tracer'_defs =
  NewOeTracer'_def CaptureStart'_def CaptureEnter'_def CaptureExit'_def CaptureEnd'_def
  createEnter'_def callEnter'_def suicideEnter'_def pushTrace'_def
  createExit'_def callExit'_def suicideExit'_def Let_def append_u32_def nil_slice_def elems_def
  createAction_def callAction_def suicideAction_def CallType_defs

text \<open>
  The tracer that appends to the parent's slice, when the runtime grants a capacity of 2
  to the first append on a nil slice: the address of the callee (node 1) has room for one
  more element, and both of its children write their last element into that room.
\<close>

lemma run'_twoCalls1:
  assumes "growcap 0 1 = 2"
  shows "run' growcap twoCalls1 NewOeTracer' =
     Some \<lparr>traces =
            [\<lparr>Action = callAction CallTypeCall 1 2 [] 100000 (Some 0),
              Result = None, Error = [], TraceAddress = nil_slice, Subtraces = 1\<rparr>,
             \<lparr>Action = callAction CallTypeCall 2 3 [] 50000 (Some 0),
              Result = None, Error = [],
              TraceAddress = \<lparr>sl_array = 0, sl_len = 1, sl_cap = 2\<rparr>, Subtraces = 1\<rparr>,
             \<lparr>Action = callAction CallTypeCall 3 4 [] 20000 (Some 0),
              Result = None, Error = [],
              TraceAddress = \<lparr>sl_array = 0, sl_len = 2, sl_cap = 2\<rparr>, Subtraces = 0\<rparr>],
           traceStack' = [0, 1, 2],
           arrays = [[0, 0]],
           outPutTraces = []\<rparr>"
  using assms by (simp add: twoCalls1_def tracer'_defs)

lemma run'_twoCalls2:
  assumes "growcap 0 1 = 2"
  shows "run' growcap twoCalls2 NewOeTracer' =
     Some \<lparr>traces =
            [\<lparr>Action = callAction CallTypeCall 1 2 [] 100000 (Some 0),
              Result = None, Error = [], TraceAddress = nil_slice, Subtraces = 1\<rparr>,
             \<lparr>Action = callAction CallTypeCall 2 3 [] 50000 (Some 0),
              Result = None, Error = [],
              TraceAddress = \<lparr>sl_array = 0, sl_len = 1, sl_cap = 2\<rparr>, Subtraces = 2\<rparr>,
             \<lparr>Action = callAction CallTypeCall 3 4 [] 20000 (Some 0),
              Result = Some \<lparr>GasUsed = 100, Output = [], Code = [], ResultAddress = None\<rparr>,
              Error = [],
              TraceAddress = \<lparr>sl_array = 0, sl_len = 2, sl_cap = 2\<rparr>, Subtraces = 0\<rparr>,
             \<lparr>Action = callAction CallTypeCall 3 5 [] 20000 (Some 0),
              Result = None, Error = [],
              TraceAddress = \<lparr>sl_array = 0, sl_len = 2, sl_cap = 2\<rparr>, Subtraces = 0\<rparr>],
           traceStack' = [0, 1, 3],
           arrays = [[0, 1]],
           outPutTraces = []\<rparr>"
  using assms by (simp add: twoCalls2_def twoCalls1_def tracer'_defs)

lemma run'_append:
  "run' G (xs @ ys) ot = (case run' G xs ot of None \<Rightarrow> None | Some ot' \<Rightarrow> run' G ys ot')"
  by (induction xs arbitrary: ot) (auto split: option.splits)

lemma run'_twoCallsAll:
  assumes "growcap 0 1 = 2"
  shows "\<exists>ot. run' growcap twoCallsAll NewOeTracer' = Some ot \<and>
           map (addressOf ot) (outPutTraces ot) = [[], [0], [0, 1], [0, 1]]"
  unfolding twoCallsAll_def run'_append run'_twoCalls2 [of growcap, OF assms]
  by (simp add: tracer'_defs addressOf_def)

text \<open>
  Claim C1 at a failing input, on the tracer that appends to the parent's slice. A root
  call, its callee, and the callee's two calls one after the other: when the first of
  the two is entered its address is \<open>[0, 0]\<close>; when the second is entered the address of
  the first has become \<open>[0, 1]\<close>, the address of the second, and the output list at the
  end of the transaction holds the addresses \<open>[]\<close>, \<open>[0]\<close>, \<open>[0, 1]\<close>, \<open>[0, 1]\<close>.
\<close>

theorem C1_appended_address_overwritten:
  assumes "growcap 0 1 = 2"
  shows "run' growcap twoCalls1 NewOeTracer' \<noteq> None \<and>
         run' growcap twoCalls2 NewOeTracer' \<noteq> None \<and>
         run' growcap twoCallsAll NewOeTracer' \<noteq> None \<and>
         addressOf (the (run' growcap twoCalls1 NewOeTracer'))
            (traces (the (run' growcap twoCalls1 NewOeTracer')) ! 2) = [0, 0] \<and>
         addressOf (the (run' growcap twoCalls2 NewOeTracer'))
            (traces (the (run' growcap twoCalls2 NewOeTracer')) ! 2) = [0, 1] \<and>
         addressOf (the (run' growcap twoCalls2 NewOeTracer'))
            (traces (the (run' growcap twoCalls2 NewOeTracer')) ! 3) = [0, 1] \<and>
         map (addressOf (the (run' growcap twoCallsAll NewOeTracer')))
            (outPutTraces (the (run' growcap twoCallsAll NewOeTracer')))
           = [[], [0], [0, 1], [0, 1]]"
proof -
  from run'_twoCallsAll [of growcap, OF assms] obtain ot
    where "run' growcap twoCallsAll NewOeTracer' = Some ot"
      "map (addressOf ot) (outPutTraces ot) = [[], [0], [0, 1], [0, 1]]" by auto
  then show ?thesis
    using run'_twoCalls1 [of growcap] run'_twoCalls2 [of growcap] assms
    by (simp add: addressOf_def elems_def)
qed

theorem C1_appended_address_overwritten_witness:
  "gcGrow 0 1 = 2 \<and>
   addressOf (the (run' gcGrow twoCalls1 NewOeTracer'))
      (traces (the (run' gcGrow twoCalls1 NewOeTracer')) ! 2) = [0, 0] \<and>
   addressOf (the (run' gcGrow twoCalls2 NewOeTracer'))
      (traces (the (run' gcGrow twoCalls2 NewOeTracer')) ! 2) = [0, 1] \<and>
   map (addressOf (the (run' gcGrow twoCallsAll NewOeTracer')))
      (outPutTraces (the (run' gcGrow twoCallsAll NewOeTracer')))
     = [[], [0], [0, 1], [0, 1]]"
proof -
  have g: "gcGrow 0 1 = 2" by (simp add: gcGrow_def)
  from C1_appended_address_overwritten [of gcGrow] g show ?thesis by simp
qed

section \<open>Proofs about the flattening pass\<close>

lemma spec_gas_word:
  "spec_gas pg gu = (if pg > gu then pg - gu else gu)"
proof -
  have a: "word_of_int (uint pg - uint gu) = pg - gu"
    by (rule word_sub_wi [symmetric])
  have b: "(uint pg - uint gu > 0) = (gu < pg)"
    by (simp add: word_less_def)
  show ?thesis unfolding spec_gas_def a b by simp
qed

lemma renderChild_spec:
  "renderChild (parent\<lparr>t_Subtraces := n\<rparr>) child = spec_render parent child"
  by (simp add: renderChild_def spec_render_def spec_gas_word Let_def split: option.splits)

lemma fieldsOf_collapse: "ActionTrace (fieldsOf t) (childTraces t) = t"
  by (cases t) simp

lemma fold_processTrace:
  assumes "\<And>x acc. x \<in> set ys \<Longrightarrow>
     processTrace acc (ActionTrace (renderChild tr (fieldsOf x)) (childTraces x)) =
       acc @ withSubtraces (ActionTrace (renderChild tr (fieldsOf x)) (childTraces x)) #
         map withSubtraces (flatten (renderChild tr (fieldsOf x)) (childTraces x))"
    and "\<And>c. renderChild tr c = spec_render f c"
  shows "fold (\<lambda>childTrace Actions.
               processTrace Actions
                 (ActionTrace (renderChild tr (fieldsOf childTrace)) (childTraces childTrace)))
          ys acc = acc @ map withSubtraces (flatten f ys)"
  using assms(1)
proof (induction ys arbitrary: acc)
  case Nil
  then show ?case by simp
next
  case (Cons y ys)
  obtain cf ccs where y: "y = ActionTrace cf ccs" by (cases y)
  have "processTrace acc (ActionTrace (renderChild tr (fieldsOf y)) (childTraces y)) =
       acc @ withSubtraces (ActionTrace (renderChild tr (fieldsOf y)) (childTraces y)) #
         map withSubtraces (flatten (renderChild tr (fieldsOf y)) (childTraces y))"
    by (rule Cons.prems) simp
  moreover have "\<And>x acc. x \<in> set ys \<Longrightarrow>
     processTrace acc (ActionTrace (renderChild tr (fieldsOf x)) (childTraces x)) =
       acc @ withSubtraces (ActionTrace (renderChild tr (fieldsOf x)) (childTraces x)) #
         map withSubtraces (flatten (renderChild tr (fieldsOf x)) (childTraces x))"
    by (rule Cons.prems) simp
  ultimately show ?case
    using Cons.IH by (simp add: y assms(2))
qed

lemma processTrace_flatten:
  "processTrace before (ActionTrace f cs) =
     before @ withSubtraces (ActionTrace f cs) # map withSubtraces (flatten f cs)"
proof (induction before "ActionTrace f cs" arbitrary: f cs rule: processTrace.induct)
  case (1 before f cs)
  let ?tr = "f\<lparr>t_Subtraces := of_nat (length cs)\<rparr>"
  have ih: "processTrace acc (ActionTrace (renderChild ?tr (fieldsOf x)) (childTraces x)) =
       acc @ withSubtraces (ActionTrace (renderChild ?tr (fieldsOf x)) (childTraces x)) #
         map withSubtraces (flatten (renderChild ?tr (fieldsOf x)) (childTraces x))"
    if "x \<in> set cs" for x acc
    using 1 [OF refl that] by simp
  have "fold (\<lambda>childTrace Actions.
               processTrace Actions
                 (ActionTrace (renderChild ?tr (fieldsOf childTrace)) (childTraces childTrace)))
          cs (before @ [ActionTrace ?tr cs]) =
        (before @ [ActionTrace ?tr cs]) @ map withSubtraces (flatten f cs)"
    by (rule fold_processTrace [OF ih renderChild_spec])
  then show ?case by (simp add: processTrace.simps [of before f cs] withSubtraces_def Let_def)
qed

lemma untouched_render:
  "untouched (ActionTrace (spec_render p cf) ccs) = untouched (ActionTrace cf ccs)"
  by (simp add: untouched_def spec_render_def Let_def split: option.splits)

lemma flatten_preorder: "map untouched (flatten p cs) = map untouched (preorder cs)"
  by (induction p cs rule: flatten.induct) (simp_all add: untouched_render)

text \<open>
  Claim C8. The post-processing pass of the tree strategy, run on the slice whose last
  element is the node \<open>ActionTrace f cs\<close>, leaves that slice followed by the flat list
  the specification words describe (\<open>flatten\<close>): the children in order, each with the
  gas rule applied against its parent's gas as rendered, a self-destruct child with
  gas zero, no sender and no result, each followed by its own descendants; on every
  node it visits the pass also writes the count of its children. The flat list is the
  preorder list of the descendants: it agrees with it on every field the pass does not
  write. The gas of the rule never wraps around.
\<close>

theorem C8_flatten:
  "processTrace before (ActionTrace f cs) =
     before @ withSubtraces (ActionTrace f cs) # map withSubtraces (flatten f cs) \<and>
   processLastTrace [ActionTrace f cs] =
     Some (withSubtraces (ActionTrace f cs) # map withSubtraces (flatten f cs)) \<and>
   map untouched (flatten f cs) = map untouched (preorder cs) \<and>
   unat (spec_gas pg gu) = (if unat gu < unat pg then unat pg - unat gu else unat gu)"
  using processTrace_flatten [of "[]" f cs]
  by (simp add: processTrace_flatten flatten_preorder processLastTrace_def
      spec_gas_word word_less_nat_alt unat_sub word_le_nat_alt)

section \<open>Proofs about the API form\<close>

lemma toRpcLoop_nth:
  "toRpcLoop it ts acc = Some rs \<Longrightarrow>
   length rs = length acc + length ts \<and>
   (\<forall>i < length acc. rs ! i = acc ! i) \<and>
   (\<forall>i < length ts. toRpcTrace it (ts ! i) = Some (rs ! (length acc + i)))"
proof (induction ts arbitrary: acc)
  case Nil
  then show ?case by simp
next
  case (Cons t ts)
  then obtain r where r: "toRpcTrace it t = Some r" and l: "toRpcLoop it ts (acc @ [r]) = Some rs"
    by (auto split: option.splits)
  from Cons.IH [OF l] have ih: "length rs = length (acc @ [r]) + length ts"
    "\<forall>i < length (acc @ [r]). rs ! i = (acc @ [r]) ! i"
    "\<forall>i < length ts. toRpcTrace it (ts ! i) = Some (rs ! (length (acc @ [r]) + i))"
    by blast+
  have a: "\<forall>i < length acc. rs ! i = acc ! i"
    using ih(2) by (auto simp: nth_append)
  have "rs ! length acc = r" using ih(2) by (auto simp: nth_append)
  then have b: "\<forall>i < length (t # ts). toRpcTrace it ((t # ts) ! i) = Some (rs ! (length acc + i))"
    using ih(3) r by (auto simp: nth_Cons split: nat.splits)
  from ih(1) a b show ?case by simp
qed

lemma toRpcTrace_suicide:
  assumes "CallType (Action t) = CallTypeSuicide"
  shows "\<exists>r. toRpcTrace it t = Some r \<and> rpcTraceType r = ''suicide'' \<and>
     rpcError r = [] \<and> rpcResult r = None \<and>
     rpcAddress (rpcAction r) = Address (Action t) \<and>
     rpcRefundAddress (rpcAction r) = RefundAddress (Action t) \<and>
     rpcBalance (rpcAction r) = Some (case Balance (Action t) of None \<Rightarrow> 0 | Some b \<Rightarrow> b) \<and>
     rpcValue (rpcAction r) = None"
  using assms by (simp add: toRpcTrace_def toRpcTraceSuicide_def Let_def CallType_defs)

text \<open>
  Claim C10. For an internal trace of a self-destruct, whatever its \<^verbatim>\<open>Error\<close> and
  \<^verbatim>\<open>Result\<close> fields hold, the conversion never panics and the API record has the type
  \<^verbatim>\<open>suicide\<close>, no error and no result; it carries the address and the refund address
  of the internal action, the balance (zero when the internal balance is nil) and no
  value. The same holds for the record at the trace's position in the list
  \<^verbatim>\<open>ToRpcTraces\<close> returns.
\<close>

theorem C10_suicide_api_form:
  assumes "CallType (Action t) = CallTypeSuicide"
  shows "(\<exists>r. toRpcTrace it t = Some r \<and> rpcTraceType r = ''suicide'' \<and>
     rpcError r = [] \<and> rpcResult r = None \<and>
     rpcAddress (rpcAction r) = Address (Action t) \<and>
     rpcRefundAddress (rpcAction r) = RefundAddress (Action t) \<and>
     rpcBalance (rpcAction r) = Some (case Balance (Action t) of None \<Rightarrow> 0 | Some b \<Rightarrow> b) \<and>
     rpcValue (rpcAction r) = None) \<and>
   (\<forall>rs i. ToRpcTraces it = Some rs \<and> i < length (ITraces it) \<and> ITraces it ! i = t \<longrightarrow>
      i < length rs \<and> rpcTraceType (rs ! i) = ''suicide'' \<and>
      rpcError (rs ! i) = [] \<and> rpcResult (rs ! i) = None \<and>
      rpcAddress (rpcAction (rs ! i)) = Address (Action t) \<and>
      rpcRefundAddress (rpcAction (rs ! i)) = RefundAddress (Action t) \<and>
      rpcBalance (rpcAction (rs ! i)) = Some (case Balance (Action t) of None \<Rightarrow> 0 | Some b \<Rightarrow> b) \<and>
      rpcValue (rpcAction (rs ! i)) = None)"
proof (rule conjI, goal_cases)
  case 1
  show "\<exists>r. toRpcTrace it t = Some r \<and> rpcTraceType r = ''suicide'' \<and>
     rpcError r = [] \<and> rpcResult r = None \<and>
     rpcAddress (rpcAction r) = Address (Action t) \<and>
     rpcRefundAddress (rpcAction r) = RefundAddress (Action t) \<and>
     rpcBalance (rpcAction r) = Some (case Balance (Action t) of None \<Rightarrow> 0 | Some b \<Rightarrow> b) \<and>
     rpcValue (rpcAction r) = None"
    using assms by (rule toRpcTrace_suicide)
next
  case 2
  have "i < length rs \<and> rpcTraceType (rs ! i) = ''suicide'' \<and>
      rpcError (rs ! i) = [] \<and> rpcResult (rs ! i) = None \<and>
      rpcAddress (rpcAction (rs ! i)) = Address (Action t) \<and>
      rpcRefundAddress (rpcAction (rs ! i)) = RefundAddress (Action t) \<and>
      rpcBalance (rpcAction (rs ! i)) = Some (case Balance (Action t) of None \<Rightarrow> 0 | Some b \<Rightarrow> b) \<and>
      rpcValue (rpcAction (rs ! i)) = None"
    if a: "ToRpcTraces it = Some rs \<and> i < length (ITraces it) \<and> ITraces it ! i = t" for rs i
  proof -
    from toRpcLoop_nth [of it "ITraces it" "[]" rs] a
    have l: "length rs = length (ITraces it)" and n: "toRpcTrace it t = Some (rs ! i)"
      by (auto simp: ToRpcTraces_def)
    from toRpcTrace_suicide [OF assms, of it] n l a show ?thesis by auto
  qed
  then show ?case by blast
qed

lemma ToRpcTraces_storedTx:
  "ToRpcTraces storedTx =
     Some [\<lparr>rpcAction =
              \<lparr>rpcCallType = None, rpcFrom = None, rpcTo = None, rpcValue = None,
               rpcGas = 0, rpcInit = [], rpcInput = [], rpcAddress = Some 3,
               rpcRefundAddress = Some 1, rpcBalance = Some 7\<rparr>,
            rpcBlockHash = 9, rpcBlockNumber = Some 100,
            rpcResult = None, rpcError = [], rpcSubtraces = 0,
            rpcTraceAddress = [0, 0],
            rpcTransactionHash = 2,
            rpcTransactionPosition = 0, rpcTraceType = ''suicide''\<rparr>]"
  by (simp add: ToRpcTraces_def storedTx_def failedSuicide_def toRpcTrace_def
      toRpcTraceSuicide_def suicideAction_def Let_def CallType_defs)

theorem C10_suicide_api_form_witness:
  "CallType (Action failedSuicide) = CallTypeSuicide \<and> Error failedSuicide = ''out of gas'' \<and>
   ToRpcTraces storedTx \<noteq> None \<and>
   rpcError (the (ToRpcTraces storedTx) ! 0) = [] \<and>
   rpcResult (the (ToRpcTraces storedTx) ! 0) = None \<and>
   rpcBalance (rpcAction (the (ToRpcTraces storedTx) ! 0)) = Some 7"
proof -
  have c: "CallType (Action failedSuicide) = CallTypeSuicide" "Error failedSuicide = ''out of gas''"
    "Balance (Action failedSuicide) = Some 7"
    by (simp_all add: failedSuicide_def suicideAction_def)
  define rs where "rs = the (ToRpcTraces storedTx)"
  have r: "ToRpcTraces storedTx = Some rs" unfolding rs_def by (simp add: ToRpcTraces_storedTx)
  have i: "0 < length (ITraces storedTx)" "ITraces storedTx ! 0 = failedSuicide"
    by (simp_all add: storedTx_def)
  from C10_suicide_api_form [OF c(1), of storedTx] r i
  have "rpcError (rs ! 0) = [] \<and> rpcResult (rs ! 0) = None \<and>
        rpcBalance (rpcAction (rs ! 0)) =
          Some (case Balance (Action failedSuicide) of None \<Rightarrow> 0 | Some b \<Rightarrow> b)"
    by blast
  moreover have "ToRpcTraces storedTx \<noteq> None" by (simp add: ToRpcTraces_storedTx)
  ultimately show ?thesis using c unfolding rs_def by simp
qed

subsection \<open>Reading from the store\<close>

text \<open>
  Claim C9. When the store answers with an empty payload, \<^verbatim>\<open>ReadRpcTxTrace\<close> returns
  the not-found error, whatever the decoder would say: not a decoding error and not a
  list of traces. A non-empty payload the decoder rejects gives the decoding error
  with the decoder's message; a non-empty payload it accepts gives what
  \<^verbatim>\<open>ToRpcTraces\<close> makes of the decoded traces; an error of the store is passed on.
\<close>

theorem C9_read:
  "(store h = Inr [] \<longrightarrow>
      ReadRpcTxTrace store decode fmtHash h =
        Some (Inl (''trace result of tx {'' @ fmtHash h @ ''} not found in tracedb'')) \<and>
      (\<forall>m. ReadRpcTxTrace store decode fmtHash h \<noteq> Some (Inl (''failed to decode rlp traces: '' @ m))) \<and>
      (\<forall>rs. ReadRpcTxTrace store decode fmtHash h \<noteq> Some (Inr rs))) \<and>
   (\<forall>raw m. store h = Inr raw \<and> raw \<noteq> [] \<and> decode raw = Inl m \<longrightarrow>
      ReadRpcTxTrace store decode fmtHash h = Some (Inl (''failed to decode rlp traces: '' @ m))) \<and>
   (\<forall>raw interTxs. store h = Inr raw \<and> raw \<noteq> [] \<and> decode raw = Inr interTxs \<longrightarrow>
      ReadRpcTxTrace store decode fmtHash h =
        (case ToRpcTraces interTxs of None \<Rightarrow> None | Some rs \<Rightarrow> Some (Inr rs))) \<and>
   (\<forall>m. store h = Inl m \<longrightarrow> ReadRpcTxTrace store decode fmtHash h = Some (Inl m))"
  by (auto simp: ReadRpcTxTrace_def split: sum.splits option.splits)

theorem C9_read_witness:
  "store0 1 = Inr [] \<and>
   ReadRpcTxTrace store0 decode0 fmtHash0 1 =
     Some (Inl ''trace result of tx {hash} not found in tracedb'') \<and>
   store0 2 = Inr [0xC1, 0xC0] \<and> decode0 [0xC1, 0xC0] = Inr storedTx \<and>
   ReadRpcTxTrace store0 decode0 fmtHash0 2 = Some (Inr (the (ToRpcTraces storedTx))) \<and>
   decode0 [0x00] = Inl ''rlp: unexpected input''"
proof -
  have s: "store0 1 = Inr []" "store0 2 = Inr [0xC1, 0xC0]" "[0xC1, 0xC0] \<noteq> ([] :: bytes)"
    "decode0 [0xC1, 0xC0] = Inr storedTx" "decode0 [0x00] = Inl ''rlp: unexpected input''"
    by (simp_all add: store0_def decode0_def)
  from C9_read [of store0 1 decode0 fmtHash0] s(1)
  have a: "ReadRpcTxTrace store0 decode0 fmtHash0 1 =
     Some (Inl ''trace result of tx {hash} not found in tracedb'')"
    by (simp add: fmtHash0_def)
  from C9_read [of store0 2 decode0 fmtHash0] s(2,3,4)
  have "ReadRpcTxTrace store0 decode0 fmtHash0 2 =
        (case ToRpcTraces storedTx of None \<Rightarrow> None | Some rs \<Rightarrow> Some (Inr rs))"
    by blast
  then have b: "ReadRpcTxTrace store0 decode0 fmtHash0 2 = Some (Inr (the (ToRpcTraces storedTx)))"
    by (simp add: ToRpcTraces_storedTx)
  from a b s show ?thesis by simp
qed

subsection \<open>What the API form does not tell apart\<close>

text \<open>
  \<^verbatim>\<open>ToRpcTraces\<close> reads a nil \<^verbatim>\<open>Value\<close> as zero and, for a self-destruct, a nil
  \<^verbatim>\<open>Balance\<close> as zero: an internal trace with the nil pointer and one with a pointer to
  zero have the same API record. The block number is passed on as it is, nil or not.
\<close>

lemma toRpcTrace_nil_Value:
  "toRpcTrace it (t\<lparr>Action := (Action t)\<lparr>Value := None\<rparr>\<rparr>) =
   toRpcTrace it (t\<lparr>Action := (Action t)\<lparr>Value := Some 0\<rparr>\<rparr>)"
  by (simp add: toRpcTrace_def toRpcTraceCreate_def toRpcTraceCall_def toRpcTraceSuicide_def
      Let_def)

lemma toRpcTrace_nil_Balance:
  "toRpcTrace it (t\<lparr>Action := (Action t)\<lparr>Balance := None\<rparr>\<rparr>) =
   toRpcTrace it (t\<lparr>Action := (Action t)\<lparr>Balance := Some 0\<rparr>\<rparr>)"
  by (simp add: toRpcTrace_def toRpcTraceCreate_def toRpcTraceCall_def toRpcTraceSuicide_def
      Let_def)

lemma toRpcTrace_BlockNumber:
  "toRpcTrace it t = Some r \<Longrightarrow> rpcBlockNumber r = BlockNumber it"
  by (auto simp: toRpcTrace_def toRpcTraceCreate_def toRpcTraceCall_def toRpcTraceSuicide_def
      Let_def split: if_splits option.splits)

lemma ToRpcTraces_no_traces: "ITraces it = [] \<Longrightarrow> ToRpcTraces it = Some []"
  by (simp add: ToRpcTraces_def)

end
